theory Spec2Isabelle
  imports
    Main
    "HOL-Library.Char_ord"
    "HOL-Library.List_Lexorder"
    "HOL-Library.Product_Lexorder"
    "HOL-Library.Option_ord"
    "HOL-Library.AList"
begin

section \<open>Rows, payloads and the store\<close>

text \<open>
  The backend (\<^verbatim>\<open>backend/main.py\<close>) keeps two SQLite tables, \<^verbatim>\<open>activities\<close> and
  \<^verbatim>\<open>mistakes\<close>, created by the two migration scripts. A row is a record with the
  columns of its \<^verbatim>\<open>CREATE TABLE\<close>; a nullable column is an \<open>option\<close>. Text is a
  \<open>string\<close> (bytes), and SQLite compares text bytewise, which is the order of
  \<^verbatim>\<open>Char_ord\<close> and \<^verbatim>\<open>List_Lexorder\<close>. Integers are
  unbounded, as Python's are.
\<close>

record activity =
  a_id :: int
  a_date :: string
  a_week :: int
  a_category :: string
  a_minutes :: int
  a_details :: "string option"
  a_created_at :: string

text \<open>\<^verbatim>\<open>ActivityCreate\<close>: the pydantic model of the body of \<^verbatim>\<open>POST /activities\<close>. Its fields
  carry types only (\<^verbatim>\<open>date: str\<close>, \<^verbatim>\<open>minutes: int\<close>); the class declares no validator.\<close>

record activity_create =
  ac_date :: string
  ac_week :: int
  ac_category :: string
  ac_minutes :: int
  ac_details :: "string option"

record mistake =
  m_id :: int
  m_date :: string
  m_game_type :: "string option"
  m_time_control :: "string option"
  m_opponent_name :: "string option"
  m_opponent_rating :: "int option"
  m_result :: "string option"
  m_move_number :: "int option"
  m_mistake_category :: "string option"
  m_cause :: "string option"
  m_fix :: "string option"
  m_training :: "string option"
  m_url :: "string option"
  m_annotations :: "string option"
  m_created_at :: string

record mistake_create =
  mc_date :: string
  mc_game_type :: "string option"
  mc_time_control :: "string option"
  mc_opponent_name :: "string option"
  mc_opponent_rating :: "int option"
  mc_result :: "string option"
  mc_move_number :: "int option"
  mc_mistake_category :: "string option"
  mc_cause :: "string option"
  mc_fix :: "string option"
  mc_training :: "string option"
  mc_url :: "string option"
  mc_annotations :: "string option"

text \<open>The database: each table's rows in rowid order, and the \<^verbatim>\<open>sqlite_sequence\<close> counter
  that \<^verbatim>\<open>AUTOINCREMENT\<close> keeps per table (the largest rowid ever handed out).\<close>

record store =
  activities :: "activity list"
  activities_seq :: int
  mistakes :: "mistake list"
  mistakes_seq :: int

datatype error =
  HTTPException int string
  | TypeError
  | OverflowError
  | OperationalError

text \<open>\<^verbatim>\<open>sqlite3\<close> binds a Python \<^verbatim>\<open>int\<close> as a signed 64-bit integer and raises
  \<^verbatim>\<open>OverflowError\<close> for any other; the statement is then not run.\<close>

definition fits_int64 :: "int \<Rightarrow> bool" where
  "fits_int64 i = (- 9223372036854775808 \<le> i \<and> i \<le> 9223372036854775807)"

section \<open>Create and delete\<close>

text \<open>\<^verbatim>\<open>AUTOINCREMENT\<close>: the new rowid is one more than the largest of the rowids in
  the table and the counter.\<close>

definition next_rowid :: "int list \<Rightarrow> int \<Rightarrow> int" where
  "next_rowid ids seq = foldr max ids seq + 1"

text \<open>\<^verbatim>\<open>create_activity\<close>: one \<^verbatim>\<open>INSERT\<close> of the five payload fields, commit, then the row
  is read back by \<^verbatim>\<open>lastrowid\<close>; \<^verbatim>\<open>dict(row)\<close> raises on a missing row. \<open>now\<close> is the
  \<^verbatim>\<open>CURRENT_TIMESTAMP\<close> of the insert. The payload's two integers, \<^verbatim>\<open>week\<close> and
  \<^verbatim>\<open>minutes\<close>, are bound into the \<^verbatim>\<open>INSERT\<close>: outside signed 64 bits the bind raises and
  nothing is stored. An \<^verbatim>\<open>AUTOINCREMENT\<close> table whose largest rowid has been used takes no
  further row (\<^verbatim>\<open>SQLITE_FULL\<close>, an \<^verbatim>\<open>OperationalError\<close>).\<close>

definition create_activity :: "string \<Rightarrow> activity_create \<Rightarrow> store \<Rightarrow> store \<times> (error + activity)" where
  "create_activity now activity db =
     (if fits_int64 (ac_week activity) \<and> fits_int64 (ac_minutes activity) then
        (let activity_id = next_rowid (map a_id (activities db)) (activities_seq db)
         in if fits_int64 activity_id then
              (let inserted = \<lparr>a_id = activity_id, a_date = ac_date activity, a_week = ac_week activity,
                                 a_category = ac_category activity, a_minutes = ac_minutes activity,
                                 a_details = ac_details activity, a_created_at = now\<rparr>;
                   db' = db\<lparr>activities := activities db @ [inserted], activities_seq := activity_id\<rparr>
               in case find (\<lambda>a. a_id a = activity_id) (activities db') of
                    None \<Rightarrow> (db', Inl TypeError)
                  | Some row \<Rightarrow> (db', Inr row))
            else (db, Inl OperationalError))
      else (db, Inl OverflowError))"

definition create_mistake :: "string \<Rightarrow> mistake_create \<Rightarrow> store \<Rightarrow> store \<times> (error + mistake)" where
  "create_mistake now mistake db =
     (let mistake_id = next_rowid (map m_id (mistakes db)) (mistakes_seq db);
          inserted = \<lparr>m_id = mistake_id, m_date = mc_date mistake, m_game_type = mc_game_type mistake,
                      m_time_control = mc_time_control mistake, m_opponent_name = mc_opponent_name mistake,
                      m_opponent_rating = mc_opponent_rating mistake, m_result = mc_result mistake,
                      m_move_number = mc_move_number mistake,
                      m_mistake_category = mc_mistake_category mistake, m_cause = mc_cause mistake,
                      m_fix = mc_fix mistake, m_training = mc_training mistake, m_url = mc_url mistake,
                      m_annotations = mc_annotations mistake, m_created_at = now\<rparr>;
          db' = db\<lparr>mistakes := mistakes db @ [inserted], mistakes_seq := mistake_id\<rparr>
      in case find (\<lambda>m. m_id m = mistake_id) (mistakes db') of
           None \<Rightarrow> (db', Inl TypeError)
         | Some row \<Rightarrow> (db', Inr row))"

text \<open>\<^verbatim>\<open>delete_activity\<close>, \<^verbatim>\<open>delete_mistake\<close>: \<^verbatim>\<open>DELETE ... WHERE id = ?\<close>; a \<^verbatim>\<open>rowcount\<close> of
  zero raises the 404 before the commit, otherwise the deletion is committed. The id of the
  path is any Python \<^verbatim>\<open>int\<close> and is bound into the statement: outside signed 64 bits the
  bind raises \<^verbatim>\<open>OverflowError\<close> (the client sees a 500) and the \<^verbatim>\<open>DELETE\<close> is not run.\<close>

definition delete_activity :: "int \<Rightarrow> store \<Rightarrow> store \<times> (error + string)" where
  "delete_activity activity_id db =
     (if fits_int64 activity_id then
        (let rowcount = length (filter (\<lambda>a. a_id a = activity_id) (activities db))
         in if rowcount = 0 then (db, Inl (HTTPException 404 ''Activity not found''))
            else (db\<lparr>activities := filter (\<lambda>a. a_id a \<noteq> activity_id) (activities db)\<rparr>,
                  Inr ''Activity deleted''))
      else (db, Inl OverflowError))"

definition delete_mistake :: "int \<Rightarrow> store \<Rightarrow> store \<times> (error + string)" where
  "delete_mistake mistake_id db =
     (if fits_int64 mistake_id then
        (let rowcount = length (filter (\<lambda>m. m_id m = mistake_id) (mistakes db))
         in if rowcount = 0 then (db, Inl (HTTPException 404 ''Mistake not found''))
            else (db\<lparr>mistakes := filter (\<lambda>m. m_id m \<noteq> mistake_id) (mistakes db)\<rparr>,
                  Inr ''Mistake deleted''))
      else (db, Inl OverflowError))"

section \<open>Listings\<close>


text \<open>Python's truth value of an \<^verbatim>\<open>Optional[str]\<close> parameter: \<^verbatim>\<open>None\<close> and the empty string
  are false.\<close>

fun truthy :: "string option \<Rightarrow> bool" where
  "truthy None = False"
| "truthy (Some s) = (s \<noteq> [])"


record 'r listing =
  rows :: "'r list"
  total_count :: int
  limit :: int
  offset :: int





section \<open>Mistake statistics\<close>

text \<open>\<^verbatim>\<open>SELECT c, COUNT(*) FROM mistakes WHERE c IS NOT NULL GROUP BY c\<close>: the null values
  are dropped, the rest is counted per distinct value. SQL leaves the order of the groups
  open; SQLite produces them in key order, which is what \<open>sort\<close> gives here.\<close>

fun not_null :: "'a option list \<Rightarrow> 'a list" where
  "not_null [] = []"
| "not_null (None # vs) = not_null vs"
| "not_null (Some v # vs) = v # not_null vs"

definition group_count :: "string option list \<Rightarrow> (string \<times> int) list" where
  "group_count column =
     (let present = not_null column
      in map (\<lambda>k. (k, int (count_list present k))) (sort (remdups present)))"



section \<open>CSV export\<close>

text \<open>Python's \<^verbatim>\<open>csv.writer\<close> with its default dialect: fields joined by a comma, a line
  ended by CR LF, a field quoted when it holds the delimiter, the quote character, CR or
  LF, with each quote character doubled. \<^verbatim>\<open>None\<close> is written as the empty field and an
  integer in decimal.\<close>

datatype cell = Null | Integer int | Text string

fun string_of_nat :: "nat \<Rightarrow> string" where
  "string_of_nat n =
     (if n < 10 then [char_of (48 + n)]
      else string_of_nat (n div 10) @ [char_of (48 + n mod 10)])"

definition string_of_int :: "int \<Rightarrow> string" where
  "string_of_int i = (if i < 0 then CHR ''-'' # string_of_nat (nat (- i)) else string_of_nat (nat i))"

definition needs_quotes :: "string \<Rightarrow> bool" where
  "needs_quotes s = list_ex (\<lambda>c. c = CHR '','' \<or> c = CHR 0x22 \<or> c = CHR 0x0D \<or> c = CHR 0x0A) s"

definition csv_quote :: "string \<Rightarrow> string" where
  "csv_quote s = CHR 0x22 # concat (map (\<lambda>c. if c = CHR 0x22 then [c, c] else [c]) s) @ [CHR 0x22]"

definition csv_field :: "cell \<Rightarrow> string" where
  "csv_field v =
     (let s = (case v of Null \<Rightarrow> [] | Integer i \<Rightarrow> string_of_int i | Text t \<Rightarrow> t)
      in if needs_quotes s then csv_quote s else s)"

fun join_fields :: "string list \<Rightarrow> string" where
  "join_fields [] = []"
| "join_fields [f] = f"
| "join_fields (f # g # fs) = f @ CHR '','' # join_fields (g # fs)"

definition writerow :: "cell list \<Rightarrow> string" where
  "writerow cells = join_fields (map csv_field cells) @ [CHR 0x0D, CHR 0x0A]"

fun opt_text :: "string option \<Rightarrow> cell" where
  "opt_text None = Null"
| "opt_text (Some s) = Text s"

fun opt_integer :: "int option \<Rightarrow> cell" where
  "opt_integer None = Null"
| "opt_integer (Some i) = Integer i"

text \<open>The response of an export: the body and, when the handler sets it, the
  \<^verbatim>\<open>Content-Disposition\<close> header. \<open>today\<close> is \<^verbatim>\<open>datetime.now().strftime('%Y%m%d')\<close>.\<close>

record response =
  body :: string
  content_disposition :: "string option"

text \<open>\<^verbatim>\<open>ORDER BY date DESC\<close> alone leaves rows of one date in an order SQL does not fix;
  the model keeps them in rowid order.\<close>

definition by_date_desc :: "('r \<Rightarrow> string) \<Rightarrow> 'r list \<Rightarrow> 'r list" where
  "by_date_desc date_of xs = rev (sort_key date_of (rev xs))"

definition activity_export_cells :: "activity \<Rightarrow> cell list" where
  "activity_export_cells a =
     [Text (a_date a), Integer (a_week a), Text (a_category a), Integer (a_minutes a),
      opt_text (a_details a)]"

definition export_activities :: "string \<Rightarrow> store \<Rightarrow> response" where
  "export_activities today db =
     (let rows = by_date_desc a_date (activities db)
      in \<lparr>body = writerow [Text ''Date'', Text ''Week'', Text ''Category'', Text ''Minutes'', Text ''Details'']
                  @ concat (map (\<lambda>row. writerow (activity_export_cells row)) rows),
          content_disposition = Some (''attachment; filename=chess_activities_'' @ today @ ''.csv'')\<rparr>)"

definition mistake_column_names :: "string list" where
  "mistake_column_names =
     [''id'', ''date'', ''game_type'', ''time_control'', ''opponent_name'', ''opponent_rating'',
      ''result'', ''move_number'', ''mistake_category'', ''cause'', ''fix'', ''training'', ''url'',
      ''annotations'', ''created_at'']"

definition mistake_cells :: "mistake \<Rightarrow> cell list" where
  "mistake_cells m =
     [Integer (m_id m), Text (m_date m), opt_text (m_game_type m), opt_text (m_time_control m),
      opt_text (m_opponent_name m), opt_integer (m_opponent_rating m), opt_text (m_result m),
      opt_integer (m_move_number m), opt_text (m_mistake_category m), opt_text (m_cause m),
      opt_text (m_fix m), opt_text (m_training m), opt_text (m_url m), opt_text (m_annotations m),
      Text (m_created_at m)]"

definition export_mistakes :: "string \<Rightarrow> store \<Rightarrow> response" where
  "export_mistakes today db =
     (let rows = by_date_desc m_date (mistakes db)
      in if rows = [] then \<lparr>body = [], content_disposition = None\<rparr>
         else \<lparr>body = writerow (map Text mistake_column_names)
                       @ concat (map (\<lambda>row. writerow (mistake_cells row)) rows),
               content_disposition = Some (''attachment; filename=chess_mistakes_'' @ today @ ''.csv'')\<rparr>)"

section \<open>SQLite's date function\<close>

text \<open>
  \<^verbatim>\<open>get_summary\<close> buckets a row by the SQL expression \<^verbatim>\<open>date(date, 'weekday 0', '-6 days')\<close>,
  which it names \<^verbatim>\<open>week_start\<close>. SQLite evaluates it in four steps: the text is parsed as
  \<^verbatim>\<open>YYYY-MM-DD\<close> (four, two and two digits, month 1 to 12, day 1 to 31; a day past the end
  of its month runs on into the next month); the date becomes a Julian day number; each
  modifier moves that number; the result is printed as \<^verbatim>\<open>YYYY-MM-DD\<close>. A text that does not
  parse gives NULL. The model reads the date-only format with years 0000 to 9999; the other
  time values SQLite accepts (a time of day after the date, a bare Julian day number,
  \<^verbatim>\<open>now\<close>) are read as NULL here.
\<close>

definition digit_of :: "char \<Rightarrow> int option" where
  "digit_of c = (let n = (of_char c :: int) in if 48 \<le> n \<and> n \<le> 57 then Some (n - 48) else None)"

fun get_digits :: "int \<Rightarrow> string \<Rightarrow> int option" where
  "get_digits acc [] = Some acc"
| "get_digits acc (c # cs) =
     (case digit_of c of None \<Rightarrow> None | Some v \<Rightarrow> get_digits (10 * acc + v) cs)"

definition parse_ymd :: "string \<Rightarrow> (int \<times> int \<times> int) option" where
  "parse_ymd s =
     (if length s = 10 \<and> s ! 4 = CHR ''-'' \<and> s ! 7 = CHR ''-'' then
        (case get_digits 0 (take 4 s) of None \<Rightarrow> None | Some y \<Rightarrow>
         case get_digits 0 (take 2 (drop 5 s)) of None \<Rightarrow> None | Some m \<Rightarrow>
         case get_digits 0 (drop 8 s) of None \<Rightarrow> None | Some d \<Rightarrow>
           if 1 \<le> m \<and> m \<le> 12 \<and> 1 \<le> d \<and> d \<le> 31 then Some (y, m, d) else None)
      else None)"

definition digit_char :: "int \<Rightarrow> char" where
  "digit_char n = char_of (48 + n)"

definition format_ymd :: "int \<times> int \<times> int \<Rightarrow> string option" where
  "format_ymd ymd =
     (case ymd of (y, m, d) \<Rightarrow>
        if 0 \<le> y \<and> y \<le> 9999 then
          Some [digit_char (y div 1000 mod 10), digit_char (y div 100 mod 10),
                digit_char (y div 10 mod 10), digit_char (y mod 10), CHR ''-'',
                digit_char (m div 10 mod 10), digit_char (m mod 10), CHR ''-'',
                digit_char (d div 10 mod 10), digit_char (d mod 10)]
        else None)"

text \<open>The Julian day number (the day count whose day 0 is a Monday) of a date of the
  proleptic Gregorian calendar: years run from March, in eras of 400 years and 146097 days.\<close>

definition jdn_of_ymd :: "int \<Rightarrow> int \<Rightarrow> int \<Rightarrow> int" where
  "jdn_of_ymd y m d =
     (let y' = (if m \<le> 2 then y - 1 else y);
          era = y' div 400;
          yoe = y' mod 400;
          mp = (m + 9) mod 12;
          doy = (153 * mp + 2) div 5 + d - 1;
          doe = yoe * 365 + yoe div 4 - yoe div 100 + doy
      in era * 146097 + doe + 1721120)"

text \<open>The year of the era and the day of that year, from the day of the era: centuries of
  36524 days, four-year cycles of 1461 days, years of 365 days, the last of each longer by
  the leap day.\<close>

definition year_of_era :: "int \<Rightarrow> int \<times> int" where
  "year_of_era doe =
     (let c = min (doe div 36524) 3;
          doc = doe - c * 36524;
          q = min (doc div 1461) 24;
          doq = doc - q * 1461;
          yq = min (doq div 365) 3
      in (c * 100 + q * 4 + yq, doq - yq * 365))"

definition ymd_of_jdn :: "int \<Rightarrow> int \<times> int \<times> int" where
  "ymd_of_jdn j =
     (let z = j - 1721120;
          era = z div 146097;
          doe = z mod 146097;
          (yoe, doy) = year_of_era doe;
          mp = (5 * doy + 2) div 153;
          d = doy - (153 * mp + 2) div 5 + 1;
          m = (if mp < 10 then mp + 3 else mp - 9)
      in (if m \<le> 2 then yoe + era * 400 + 1 else yoe + era * 400, m, d))"

text \<open>The modifier \<^verbatim>\<open>weekday N\<close> moves the date forward to the next day whose weekday is N
  (Sunday is 0) and leaves it where it is when it already falls on that weekday; the
  modifier \<^verbatim>\<open>K days\<close> adds K days.\<close>

definition sqlite_weekday :: "int \<Rightarrow> int" where
  "sqlite_weekday j = (j + 1) mod 7"

definition weekday_modifier :: "int \<Rightarrow> int \<Rightarrow> int" where
  "weekday_modifier n j =
     (let z = sqlite_weekday j;
          z' = (if z > n then z - 7 else z)
      in j + (n - z'))"

definition days_modifier :: "int \<Rightarrow> int \<Rightarrow> int" where
  "days_modifier k j = j + k"

text \<open>The day number a date text stands for, and the text printed for a day number.\<close>

definition day_number :: "string \<Rightarrow> int option" where
  "day_number s = (case parse_ymd s of None \<Rightarrow> None | Some (y, m, d) \<Rightarrow> Some (jdn_of_ymd y m d))"

definition date_text :: "int \<Rightarrow> string option" where
  "date_text j = format_ymd (ymd_of_jdn j)"

text \<open>\<^verbatim>\<open>date(date, 'weekday 0', '-6 days') as week_start\<close>.\<close>

definition week_start :: "string \<Rightarrow> string option" where
  "week_start date =
     (case day_number date of
        None \<Rightarrow> None
      | Some j \<Rightarrow> date_text (days_modifier (- 6) (weekday_modifier 0 j)))"

definition weekday_of :: "string \<Rightarrow> int option" where
  "weekday_of s = (case day_number s of None \<Rightarrow> None | Some j \<Rightarrow> Some (sqlite_weekday j))"


text \<open>A valid calendar date, as the specification's Activity invariant means it: an ISO
  text \<^verbatim>\<open>YYYY-MM-DD\<close> with a year from 0001 and a day that its month has.\<close>

definition leap_year :: "int \<Rightarrow> bool" where
  "leap_year y = (y mod 4 = 0 \<and> (y mod 100 \<noteq> 0 \<or> y mod 400 = 0))"

definition days_in_month :: "int \<Rightarrow> int \<Rightarrow> int" where
  "days_in_month y m =
     (if m = 2 then (if leap_year y then 29 else 28)
      else if m = 4 \<or> m = 6 \<or> m = 9 \<or> m = 11 then 30 else 31)"

definition valid_date :: "string \<Rightarrow> bool" where
  "valid_date s =
     (case parse_ymd s of None \<Rightarrow> False | Some (y, m, d) \<Rightarrow> 1 \<le> y \<and> d \<le> days_in_month y m)"

text \<open>The week start the specification describes: the Sunday on or before the date,
  \<open>D - ((weekday(D) + 1) mod 7)\<close> days with Monday as weekday 0. On day numbers Monday is
  \<open>j mod 7 = 0\<close>.\<close>

definition spec_week_start :: "string \<Rightarrow> string option" where
  "spec_week_start date =
     (case day_number date of
        None \<Rightarrow> None
      | Some j \<Rightarrow> date_text (j - (j mod 7 + 1) mod 7))"

section \<open>The summary\<close>

text \<open>A value of a JSON object of the response, and a row of \<^verbatim>\<open>weekly_progress\<close>: a Python
  dict, which keeps its keys in insertion order and overwrites the value of a key that is
  already there, as \<open>AList.update\<close> does.\<close>

datatype json = JNull | JInt int | JStr string

type_synonym row = "(string \<times> json) list"

fun json_of_week :: "string option \<Rightarrow> json" where
  "json_of_week None = JNull"
| "json_of_week (Some w) = JStr w"

text \<open>\<^verbatim>\<open>SELECT category, SUM(minutes) FROM activities GROUP BY category\<close>.\<close>

definition category_totals :: "activity list \<Rightarrow> (string \<times> int) list" where
  "category_totals acts =
     map (\<lambda>c. (c, sum_list (map a_minutes (filter (\<lambda>a. a_category a = c) acts))))
       (sort (remdups (map a_category acts)))"

text \<open>\<^verbatim>\<open>SELECT DISTINCT week_start ... ORDER BY week_start DESC LIMIT 12\<close>, then
  \<^verbatim>\<open>weeks.reverse()\<close>. NULL sorts below every text, as \<open>None\<close> does.\<close>

definition recent_weeks :: "activity list \<Rightarrow> string option list" where
  "recent_weeks acts = take 12 (rev (sort (remdups (map (\<lambda>a. week_start (a_date a)) acts))))"

text \<open>\<^verbatim>\<open>SELECT week_start, category, SUM(minutes) ... WHERE week_start IN (weeks)
  GROUP BY week_start, category\<close>; \<^verbatim>\<open>IN\<close> is never true of NULL.\<close>

definition weekly_totals :: "string option list \<Rightarrow> activity list \<Rightarrow> (string option \<times> string \<times> int) list" where
  "weekly_totals weeks acts =
     (let selected = filter (\<lambda>a. week_start (a_date a) \<noteq> None \<and> week_start (a_date a) \<in> set weeks) acts
      in map (\<lambda>(w, c). (w, c, sum_list (map a_minutes
                 (filter (\<lambda>a. week_start (a_date a) = w \<and> a_category a = c) selected))))
           (sort (remdups (map (\<lambda>a. (week_start (a_date a), a_category a)) selected))))"

text \<open>The loop over the grouped rows: \<^verbatim>\<open>if week in data_map: data_map[week][cat] = mins\<close>.\<close>

definition pivot_step :: "(string option \<times> row) list \<Rightarrow> string option \<times> string \<times> int \<Rightarrow> (string option \<times> row) list" where
  "pivot_step data_map r =
     (case r of (week, cat, mins) \<Rightarrow>
        if week \<in> fst ` set data_map then AList.map_entry week (AList.update cat (JInt mins)) data_map
        else data_map)"

definition weekly_progress_of :: "activity list \<Rightarrow> row list" where
  "weekly_progress_of acts =
     (let weeks = rev (recent_weeks acts)
      in if weeks = [] then []
         else map snd (foldl pivot_step
                        (map (\<lambda>week. (week, [(''week_start'', json_of_week week)])) weeks)
                        (weekly_totals weeks acts)))"

text \<open>\<^verbatim>\<open>SELECT date(MAX(date), 'weekday 0', '-6 days') FROM activities\<close>: the aggregate over
  no rows is NULL, and so is its date.\<close>

definition max_date :: "activity list \<Rightarrow> string option" where
  "max_date acts = (case acts of [] \<Rightarrow> None | a # rest \<Rightarrow> Some (foldl max (a_date a) (map a_date rest)))"

definition current_week_start_of :: "activity list \<Rightarrow> string option" where
  "current_week_start_of acts = (case max_date acts of None \<Rightarrow> None | Some d \<Rightarrow> week_start d)"

text \<open>\<^verbatim>\<open>SELECT SUM(minutes) ... WHERE week_start = ?\<close>, run when \<^verbatim>\<open>current_week_start\<close> is
  truthy; \<^verbatim>\<open>row[0] if row and row[0] else 0\<close> turns a NULL or zero sum into 0.\<close>

definition current_week_minutes_of :: "activity list \<Rightarrow> int" where
  "current_week_minutes_of acts =
     (if truthy (current_week_start_of acts) then
        (let matching = filter (\<lambda>a. week_start (a_date a) = current_week_start_of acts) acts;
             total = (if matching = [] then None else Some (sum_list (map a_minutes matching)))
         in case total of None \<Rightarrow> 0 | Some t \<Rightarrow> if t \<noteq> 0 then t else 0)
      else 0)"

text \<open>Rounding of the exact quotient \<open>n / d\<close> (for \<open>0 < d\<close>) to an integer: a tie to the
  even neighbour, or a tie away from zero.\<close>

definition round_half_even :: "int \<Rightarrow> int \<Rightarrow> int" where
  "round_half_even n d =
     (let q = n div d; r = n mod d
      in if 2 * r < d then q else if 2 * r > d then q + 1 else if even q then q else q + 1)"

definition round_half_away :: "int \<Rightarrow> int \<Rightarrow> int" where
  "round_half_away n d =
     (let q = n div d; r = n mod d
      in if 2 * r < d then q else if 2 * r > d then q + 1 else if n < 0 then q else q + 1)"

text \<open>A Python \<^verbatim>\<open>float\<close> is an IEEE binary64 number; a finite one is kept as a pair
  \<open>(m, e)\<close> that stands for \<open>m * 2 ^ e\<close>, with \<open>2 ^ 52 \<le> \<bar>m\<bar> < 2 ^ 53\<close>, and zero as \<open>(0, 0)\<close>.
  The exponent range of binary64 and the sign of a zero are left out: the values of the
  handler are quotients by 60 and by 100 of 64-bit integers.

  \<^verbatim>\<open>scale_up\<close> doubles the numerator until the quotient has 53 bits, \<^verbatim>\<open>scale_down\<close> doubles
  the denominator until it has no more than 53.\<close>

type_synonym double = "int \<times> int"

function scale_up :: "int \<Rightarrow> int \<Rightarrow> nat \<Rightarrow> int \<times> nat" where
  "scale_up n d k =
     (if n \<noteq> 0 \<and> 0 < d \<and> \<bar>n\<bar> < 4503599627370496 * d then scale_up (2 * n) d (Suc k) else (n, k))"
  by pat_completeness auto
termination
  by (relation "measure (\<lambda>(n, d, k). nat (4503599627370496 * d - \<bar>n\<bar>))") auto

function scale_down :: "int \<Rightarrow> int \<Rightarrow> nat \<Rightarrow> int \<times> nat" where
  "scale_down n d k =
     (if 0 < d \<and> 9007199254740992 * d \<le> \<bar>n\<bar> then scale_down n (2 * d) (Suc k) else (d, k))"
  by pat_completeness auto
termination
  by (relation "measure (\<lambda>(n, d, k). nat (\<bar>n\<bar> - 9007199254740992 * d + 1))") auto

declare scale_up.simps [simp del] scale_down.simps [simp del]

text \<open>A mantissa that rounding has carried up to \<open>2 ^ 53\<close> is halved.\<close>

definition normalize_double :: "double \<Rightarrow> double" where
  "normalize_double x =
     (case x of (m, e) \<Rightarrow> if \<bar>m\<bar> = 9007199254740992 then (m div 2, e + 1) else (m, e))"

text \<open>\<^verbatim>\<open>n / d\<close> on two Python \<^verbatim>\<open>int\<close>s, and the reading of a decimal text with \<open>d\<close> a power
  of ten: the binary64 number nearest to the exact quotient, a tie to the even mantissa.\<close>

definition double_of_ratio :: "int \<Rightarrow> int \<Rightarrow> double" where
  "double_of_ratio n d =
     (if \<bar>n\<bar> < 4503599627370496 * d
      then (case scale_up n d 0 of (n', k) \<Rightarrow> normalize_double (round_half_even n' d, - int k))
      else (case scale_down n d 0 of (d', k) \<Rightarrow> normalize_double (round_half_even n d', int k)))"

text \<open>\<^verbatim>\<open>round(x, 2)\<close> on a \<^verbatim>\<open>float\<close>: the exact value of \<open>x\<close> is rounded to two decimals, a tie
  to the even one, and the decimal text of that is read back as a \<^verbatim>\<open>float\<close>.\<close>

definition py_round2 :: "double \<Rightarrow> double" where
  "py_round2 x =
     (case x of (m, e) \<Rightarrow>
        double_of_ratio (if 0 \<le> e then 100 * m * 2 ^ nat e
                         else round_half_even (100 * m) (2 ^ nat (- e))) 100)"

text \<open>\<^verbatim>\<open>get_summary\<close>. The sums are taken in unbounded integers: SQLite raises once a
  \<^verbatim>\<open>SUM\<close> leaves signed 64 bits, which a bound on the stored minutes excludes where a total
  is claimed. \<^verbatim>\<open>current_week_total_hours\<close> is \<^verbatim>\<open>round(current_week_minutes / 60, 2)\<close>.\<close>

record summary =
  category_distribution :: "(string \<times> int) list"
  weekly_progress :: "row list"
  current_week_total_hours :: double
  current_week_start :: "string option"

definition get_summary :: "store \<Rightarrow> summary" where
  "get_summary db =
     \<lparr>category_distribution = category_totals (activities db),
      weekly_progress = weekly_progress_of (activities db),
      current_week_total_hours = py_round2 (double_of_ratio (current_week_minutes_of (activities db)) 60),
      current_week_start = current_week_start_of (activities db)\<rparr>"

section \<open>Concrete stores\<close>

definition empty_db :: store where
  "empty_db = \<lparr>activities = [], activities_seq = 0, mistakes = [], mistakes_seq = 0\<rparr>"

text \<open>The scenario of the specification: two Tactics sessions, a Monday and the Saturday
  of the same week, inserted through \<^verbatim>\<open>POST /activities\<close>.\<close>

definition monday_tactics :: activity_create where
  "monday_tactics = \<lparr>ac_date = ''2026-01-05'', ac_week = 2, ac_category = ''Tactics'',
                      ac_minutes = 30, ac_details = None\<rparr>"

definition saturday_tactics :: activity_create where
  "saturday_tactics = \<lparr>ac_date = ''2026-01-10'', ac_week = 2, ac_category = ''Tactics'',
                        ac_minutes = 45, ac_details = None\<rparr>"

definition scenario_db :: store where
  "scenario_db =
     fst (create_activity ''2026-01-10 18:00:00'' saturday_tactics
       (fst (create_activity ''2026-01-05 18:00:00'' monday_tactics empty_db)))"

definition blank_mistake :: mistake_create where
  "blank_mistake = \<lparr>mc_date = ''2026-01-07'', mc_game_type = None, mc_time_control = None,
      mc_opponent_name = None, mc_opponent_rating = None, mc_result = None,
      mc_move_number = None, mc_mistake_category = None, mc_cause = None, mc_fix = None,
      mc_training = None, mc_url = None, mc_annotations = None\<rparr>"



text \<open>A payload that breaks both halves of the Activity invariant of the specification.\<close>

definition bad_activity :: activity_create where
  "bad_activity = \<lparr>ac_date = ''2026-13-45'', ac_week = 0, ac_category = ''Tactics'',
                    ac_minutes = - 5, ac_details = None\<rparr>"

text \<open>A payload whose \<^verbatim>\<open>minutes\<close> is \<open>2 ^ 63\<close>, the first integer past signed 64 bits.\<close>

definition oversized_minutes :: activity_create where
  "oversized_minutes = \<lparr>ac_date = ''2026-01-05'', ac_week = 2, ac_category = ''Tactics'',
                         ac_minutes = 9223372036854775808, ac_details = None\<rparr>"

text \<open>A store whose only activity has \<open>60 * 2 ^ 44 + 2\<close> minutes.\<close>

definition long_session :: activity_create where
  "long_session = \<lparr>ac_date = ''2026-01-05'', ac_week = 2, ac_category = ''Tactics'',
                    ac_minutes = 1055531162664962, ac_details = None\<rparr>"

definition long_session_db :: store where
  "long_session_db = fst (create_activity ''2026-01-05 18:00:00'' long_session empty_db)"

section \<open>Day numbers and dates\<close>

lemma century_step:
  fixes x :: int
  assumes "0 \<le> x" "x \<le> 146096"
  shows "0 \<le> min (x div 36524) 3" "min (x div 36524) 3 \<le> 3"
        "0 \<le> x - min (x div 36524) 3 * 36524"
        "x - min (x div 36524) 3 * 36524 \<le> 36524"
  using assms unfolding min_def by (simp_all split: if_splits; arith)+

lemma cycle_step:
  fixes x :: int
  assumes "0 \<le> x" "x \<le> 36524"
  shows "0 \<le> min (x div 1461) 24" "min (x div 1461) 24 \<le> 24"
        "0 \<le> x - min (x div 1461) 24 * 1461"
        "x - min (x div 1461) 24 * 1461 \<le> 1460"
  using assms unfolding min_def by (simp_all split: if_splits; arith)+

lemma year_step:
  fixes x :: int
  assumes "0 \<le> x" "x \<le> 1460"
  shows "0 \<le> min (x div 365) 3" "min (x div 365) 3 \<le> 3"
        "0 \<le> x - min (x div 365) 3 * 365"
        "x - min (x div 365) 3 * 365 \<le> 365"
  using assms unfolding min_def by (simp_all split: if_splits; arith)+

lemma year_of_era_bounds:
  assumes "0 \<le> doe" "doe \<le> 146096" "year_of_era doe = (yoe, doy)"
  shows "0 \<le> yoe" "yoe \<le> 399" "0 \<le> doy" "doy \<le> 365"
        "yoe * 365 + yoe div 4 - yoe div 100 + doy = doe"
proof -
  define c where "c = min (doe div 36524) 3"
  define doc where "doc = doe - c * 36524"
  define q where "q = min (doc div 1461) 24"
  define doq where "doq = doc - q * 1461"
  define yq where "yq = min (doq div 365) 3"
  have yoe: "yoe = c * 100 + q * 4 + yq" and doy: "doy = doq - yq * 365"
    using assms(3) by (simp_all add: year_of_era_def Let_def c_def doc_def q_def doq_def yq_def)
  have c: "0 \<le> c" "c \<le> 3" and doc: "0 \<le> doc" "doc \<le> 36524"
    using century_step [OF assms(1,2)] by (simp_all add: c_def doc_def)
  have q: "0 \<le> q" "q \<le> 24" and doq: "0 \<le> doq" "doq \<le> 1460"
    using cycle_step [OF doc] by (simp_all add: q_def doq_def)
  have yq: "0 \<le> yq" "yq \<le> 3" and doy_b: "0 \<le> doy" "doy \<le> 365"
    using year_step [OF doq] by (simp_all add: yq_def doy)
  have d4: "yoe div 4 = c * 25 + q" unfolding yoe using yq by linarith
  have d100: "yoe div 100 = c" unfolding yoe using yq q by linarith
  show "0 \<le> yoe" "yoe \<le> 399" unfolding yoe using c q yq by linarith+
  show "0 \<le> doy" "doy \<le> 365" by fact+
  show "yoe * 365 + yoe div 4 - yoe div 100 + doy = doe"
    unfolding d4 d100 unfolding yoe doy doq_def doc_def by (simp add: algebra_simps)
qed

lemma month_bounds:
  fixes doy :: int
  assumes "0 \<le> doy" "doy \<le> 365"
  shows "0 \<le> (5 * doy + 2) div 153" "(5 * doy + 2) div 153 \<le> 11"
  using assms by arith+

lemma day_bounds:
  fixes doy :: int
  assumes "0 \<le> doy" "doy \<le> 365"
  shows "1 \<le> doy - (153 * ((5 * doy + 2) div 153) + 2) div 5 + 1"
        "doy - (153 * ((5 * doy + 2) div 153) + 2) div 5 + 1 \<le> 31"
proof -
  define mp where "mp = (5 * doy + 2) div 153"
  have "0 \<le> mp" "mp \<le> 11" using month_bounds [OF assms] by (simp_all add: mp_def)
  then consider "mp = 0" | "mp = 1" | "mp = 2" | "mp = 3" | "mp = 4" | "mp = 5" | "mp = 6"
    | "mp = 7" | "mp = 8" | "mp = 9" | "mp = 10" | "mp = 11" by atomize_elim arith
  then have "1 \<le> doy - (153 * mp + 2) div 5 + 1 \<and> doy - (153 * mp + 2) div 5 + 1 \<le> 31"
  proof cases
    case 1 then show ?thesis using assms unfolding mp_def by (simp; arith) next
    case 2 then show ?thesis using assms unfolding mp_def by (simp; arith) next
    case 3 then show ?thesis using assms unfolding mp_def by (simp; arith) next
    case 4 then show ?thesis using assms unfolding mp_def by (simp; arith) next
    case 5 then show ?thesis using assms unfolding mp_def by (simp; arith) next
    case 6 then show ?thesis using assms unfolding mp_def by (simp; arith) next
    case 7 then show ?thesis using assms unfolding mp_def by (simp; arith) next
    case 8 then show ?thesis using assms unfolding mp_def by (simp; arith) next
    case 9 then show ?thesis using assms unfolding mp_def by (simp; arith) next
    case 10 then show ?thesis using assms unfolding mp_def by (simp; arith) next
    case 11 then show ?thesis using assms unfolding mp_def by (simp; arith) next
    case 12 then show ?thesis using assms unfolding mp_def by (simp; arith)
  qed
  then show "1 \<le> doy - (153 * ((5 * doy + 2) div 153) + 2) div 5 + 1"
        "doy - (153 * ((5 * doy + 2) div 153) + 2) div 5 + 1 \<le> 31"
    by (simp_all add: mp_def)
qed

lemma ymd_of_jdn_cases:
  assumes "ymd_of_jdn j = (y, m, d)"
  obtains era yoe doy mp where
    "era = (j - 1721120) div 146097"
    "0 \<le> yoe" "yoe \<le> 399" "0 \<le> doy" "doy \<le> 365" "0 \<le> mp" "mp \<le> 11"
    "j - 1721120 = era * 146097 + (yoe * 365 + yoe div 4 - yoe div 100 + doy)"
    "mp = (5 * doy + 2) div 153"
    "d = doy - (153 * mp + 2) div 5 + 1"
    "m = (if mp < 10 then mp + 3 else mp - 9)"
    "y = (if mp < 10 then yoe + era * 400 else yoe + era * 400 + 1)"
    "1 \<le> d" "d \<le> 31"
proof -
  define z where "z = j - 1721120"
  define era where "era = z div 146097"
  define doe where "doe = z mod 146097"
  obtain yoe doy where yd: "year_of_era doe = (yoe, doy)" by (cases "year_of_era doe")
  define mp where "mp = (5 * doy + 2) div 153"
  have doe: "0 \<le> doe" "doe \<le> 146096" by (simp_all add: doe_def)
  note b = year_of_era_bounds [OF doe yd]
  have mp: "0 \<le> mp" "mp \<le> 11" using month_bounds [of doy] b by (simp_all add: mp_def)
  have d: "d = doy - (153 * mp + 2) div 5 + 1"
    and m: "m = (if mp < 10 then mp + 3 else mp - 9)"
    and y0: "y = (if m \<le> 2 then yoe + era * 400 + 1 else yoe + era * 400)"
    using assms yd unfolding ymd_of_jdn_def Let_def doe_def z_def era_def mp_def by auto
  have y: "y = (if mp < 10 then yoe + era * 400 else yoe + era * 400 + 1)"
    using mp unfolding y0 m by simp
  have db: "1 \<le> d" "d \<le> 31" using day_bounds [of doy] b by (simp_all add: d mp_def)
  have z: "z = era * 146097 + (yoe * 365 + yoe div 4 - yoe div 100 + doy)"
    unfolding b(5) era_def doe_def by simp
  show thesis
  proof (rule that [of era yoe doy mp])
    show "era = (j - 1721120) div 146097" by (simp add: era_def z_def)
    show "0 \<le> yoe" "yoe \<le> 399" "0 \<le> doy" "doy \<le> 365" by (fact b)+
    show "0 \<le> mp" "mp \<le> 11" by (fact mp)+
    show "j - 1721120 = era * 146097 + (yoe * 365 + yoe div 4 - yoe div 100 + doy)"
      using z by (simp only: z_def)
    show "mp = (5 * doy + 2) div 153" by (fact mp_def)
    show "d = doy - (153 * mp + 2) div 5 + 1" by (fact d)
    show "m = (if mp < 10 then mp + 3 else mp - 9)" by (fact m)
    show "y = (if mp < 10 then yoe + era * 400 else yoe + era * 400 + 1)" by (fact y)
    show "1 \<le> d" "d \<le> 31" by (fact db)+
  qed
qed

lemma jdn_of_ymd_of_jdn:
  assumes "ymd_of_jdn j = (y, m, d)"
  shows "jdn_of_ymd y m d = j"
proof -
  from assms obtain era yoe doy mp where
    e: "era = (j - 1721120) div 146097"
    and yoe: "0 \<le> yoe" "yoe \<le> 399" and mp: "0 \<le> mp" "mp \<le> 11"
    and j: "j - 1721120 = era * 146097 + (yoe * 365 + yoe div 4 - yoe div 100 + doy)"
    and d: "d = doy - (153 * mp + 2) div 5 + 1"
    and m: "m = (if mp < 10 then mp + 3 else mp - 9)"
    and y: "y = (if mp < 10 then yoe + era * 400 else yoe + era * 400 + 1)"
    by (rule ymd_of_jdn_cases)
  have mp': "(m + 9) mod 12 = mp" using mp unfolding m by (simp split: if_splits; arith)
  have y': "(if m \<le> 2 then y - 1 else y) = yoe + era * 400" using mp by (simp add: y m)
  have ee: "(yoe + era * 400) div 400 = era" "(yoe + era * 400) mod 400 = yoe"
    using yoe by simp_all
  have "jdn_of_ymd y m d
      = era * 146097 + (yoe * 365 + yoe div 4 - yoe div 100 + ((153 * mp + 2) div 5 + d - 1)) + 1721120"
    unfolding jdn_of_ymd_def Let_def y' ee mp' by simp
  also have "(153 * mp + 2) div 5 + d - 1 = doy" by (simp add: d)
  finally show ?thesis using j by simp
qed

lemma ymd_of_jdn_year_range:
  assumes "ymd_of_jdn j = (y, m, d)" "1721426 \<le> j" "j \<le> 5373484"
  shows "0 \<le> y" "y \<le> 9999"
proof -
  from assms(1) obtain era yoe doy mp where
    e: "era = (j - 1721120) div 146097"
    and yoe: "0 \<le> yoe" "yoe \<le> 399" and doy: "0 \<le> doy" "doy \<le> 365"
    and j: "j - 1721120 = era * 146097 + (yoe * 365 + yoe div 4 - yoe div 100 + doy)"
    and mp: "mp = (5 * doy + 2) div 153"
    and y: "y = (if mp < 10 then yoe + era * 400 else yoe + era * 400 + 1)"
    by (rule ymd_of_jdn_cases)
  have "0 \<le> j - 1721120" using assms(2) by simp
  then have e0: "0 \<le> era" unfolding e by (simp add: pos_imp_zdiv_nonneg_iff)
  have "(j - 1721120) div 146097 \<le> 3652364 div 146097"
    using assms(3) by (intro zdiv_mono1) simp_all
  then have e24: "era \<le> 24" unfolding e by simp
  show "0 \<le> y" using e0 yoe by (simp add: y)
  show "y \<le> 9999"
  proof (cases "era = 24 \<and> yoe = 399")
    case True
    then have "doy = j - 1721120 - 24 * 146097 - 145731" using j by simp
    then have "doy \<le> 305" using assms(3) by simp
    then have "5 * doy + 2 < 153 * 10" by simp
    then have "mp < 10" unfolding mp using doy(1) by (simp add: div_less_iff_less_mult [symmetric] zdiv_zmult2_eq) 
    then show ?thesis using True by (simp add: y)
  next
    case False
    then have "yoe + era * 400 \<le> 9998" using e24 yoe by linarith
    then show ?thesis by (simp add: y)
  qed
qed

lemma digit_roundtrip: "0 \<le> n \<Longrightarrow> n \<le> 9 \<Longrightarrow> digit_of (digit_char n) = Some n"
proof -
  assume "0 \<le> n" "n \<le> 9"
  then consider "n = 0" | "n = 1" | "n = 2" | "n = 3" | "n = 4" | "n = 5" | "n = 6" | "n = 7"
    | "n = 8" | "n = 9" by atomize_elim arith
  then show ?thesis
    by cases (simp_all add: digit_of_def digit_char_def)
qed

lemma digit_of_mod10: "digit_of (digit_char (k mod 10)) = Some (k mod 10)"
  by (rule digit_roundtrip) (simp_all add: zle_diff1_eq [symmetric, of _ 10, simplified])

lemma four_digits:
  fixes y :: int
  assumes "0 \<le> y" "y \<le> 9999"
  shows "10 * (10 * (10 * (y div 1000 mod 10) + y div 100 mod 10) + y div 10 mod 10) + y mod 10 = y"
proof -
  define a where "a = y div 10"
  define b where "b = a div 10"
  define c where "c = b div 10"
  have y100: "y div 100 = b" using zdiv_zmult2_eq [of 10 y 10] by (simp add: a_def b_def)
  have y1000: "y div 1000 = c" using zdiv_zmult2_eq [of 10 y 100] by (simp add: y100 c_def)
  have "y div 1000 \<le> 9999 div 1000" using assms(2) by (intro zdiv_mono1) simp_all
  moreover have "0 \<le> y div 1000" using assms(1) by (simp add: pos_imp_zdiv_nonneg_iff)
  ultimately have c10: "c mod 10 = c" by (simp add: y1000)
  have "10 * c + b mod 10 = b" unfolding c_def by simp
  moreover have "10 * b + a mod 10 = a" unfolding b_def by simp
  moreover have "10 * a + y mod 10 = y" unfolding a_def by simp
  ultimately show ?thesis
    unfolding y100 y1000 c10 a_def [symmetric] by simp
qed

lemma two_digits:
  fixes m :: int
  assumes "0 \<le> m" "m \<le> 99"
  shows "10 * (m div 10 mod 10) + m mod 10 = m"
proof -
  have "m div 10 \<le> 99 div 10" using assms(2) by (intro zdiv_mono1) simp_all
  moreover have "0 \<le> m div 10" using assms(1) by (simp add: pos_imp_zdiv_nonneg_iff)
  ultimately have "m div 10 mod 10 = m div 10" by simp
  then show ?thesis by simp
qed

lemma get_digits2:
  "get_digits 0 [digit_char (a mod 10), digit_char (b mod 10)] = Some (10 * (a mod 10) + b mod 10)"
  by (simp add: digit_of_mod10)

lemma get_digits4:
  "get_digits 0 [digit_char (a mod 10), digit_char (b mod 10), digit_char (c mod 10), digit_char (e mod 10)]
     = Some (10 * (10 * (10 * (a mod 10) + b mod 10) + c mod 10) + e mod 10)"
  by (simp add: digit_of_mod10)

lemma format_ymd_shape:
  assumes "format_ymd (y, m, d) = Some s"
  shows "length s = 10" "s ! 4 = CHR ''-''" "s ! 7 = CHR ''-''"
    "take 4 s = [digit_char (y div 1000 mod 10), digit_char (y div 100 mod 10),
                 digit_char (y div 10 mod 10), digit_char (y mod 10)]"
    "take 2 (drop 5 s) = [digit_char (m div 10 mod 10), digit_char (m mod 10)]"
    "drop 8 s = [digit_char (d div 10 mod 10), digit_char (d mod 10)]"
  using assms by (auto simp add: format_ymd_def split: if_splits)

lemma parse_format:
  assumes "0 \<le> y" "y \<le> 9999" "1 \<le> m" "m \<le> 12" "1 \<le> d" "d \<le> 31"
    and "format_ymd (y, m, d) = Some s"
  shows "parse_ymd s = Some (y, m, d)"
proof -
  note sh = format_ymd_shape [OF assms(7)]
  have m0: "0 \<le> m" "m \<le> 99" using assms(3,4) by linarith+
  have d0: "0 \<le> d" "d \<le> 99" using assms(5,6) by linarith+
  have y: "get_digits 0 (take 4 s) = Some y"
    by (simp only: sh(4) get_digits4 four_digits [OF assms(1,2)])
  have m: "get_digits 0 (take 2 (drop 5 s)) = Some m"
    by (simp only: sh(5) get_digits2 two_digits [OF m0])
  have d: "get_digits 0 (drop 8 s) = Some d"
    by (simp only: sh(6) get_digits2 two_digits [OF d0])
  have c: "1 \<le> m \<and> m \<le> 12 \<and> 1 \<le> d \<and> d \<le> 31" using assms(3-6) by simp
  show ?thesis
    by (simp only: parse_ymd_def sh(1,2,3) y m d c option.case if_True simp_thms)
qed

lemma week_start_day:
  "days_modifier (- 6) (weekday_modifier 0 j) = j - j mod 7"
  unfolding days_modifier_def weekday_modifier_def sqlite_weekday_def Let_def
  by (simp split: if_splits; presburger)

lemma get_digits_bounds:
  "get_digits acc cs = Some v \<Longrightarrow> acc * 10 ^ length cs \<le> v \<and> v < (acc + 1) * 10 ^ length cs"
proof (induction cs arbitrary: acc)
  case Nil
  then show ?case by simp
next
  case (Cons c cs)
  then obtain dv where dv: "digit_of c = Some dv" and r: "get_digits (10 * acc + dv) cs = Some v"
    by (auto split: option.splits)
  have b: "0 \<le> dv" "dv \<le> 9"
    using dv by (auto simp add: digit_of_def Let_def split: if_splits)
  define P :: int where "P = 10 ^ length cs"
  have P: "0 < P" by (simp add: P_def)
  from Cons.IH [OF r] have ih: "(10 * acc + dv) * P \<le> v" "v < (10 * acc + dv + 1) * P"
    by (simp_all add: P_def)
  have "0 \<le> dv * P" "0 \<le> (9 - dv) * P" using b P by simp_all
  then have "acc * (10 * P) \<le> (10 * acc + dv) * P" "(10 * acc + dv + 1) * P \<le> (acc + 1) * (10 * P)"
    by (simp_all add: algebra_simps)
  then have "acc * (10 * P) \<le> v" "v < (acc + 1) * (10 * P)" using ih by linarith+
  then show ?case by (simp add: P_def)
qed

lemma parse_ymd_range:
  assumes "parse_ymd s = Some (y, m, d)"
  shows "0 \<le> y" "y \<le> 9999" "1 \<le> m" "m \<le> 12" "1 \<le> d" "d \<le> 31"
proof -
  from assms have l: "length s = 10" and gy: "get_digits 0 (take 4 s) = Some y"
    and md: "1 \<le> m \<and> m \<le> 12 \<and> 1 \<le> d \<and> d \<le> 31"
    by (auto simp add: parse_ymd_def split: if_splits option.splits)
  from get_digits_bounds [OF gy] l show "0 \<le> y" "y \<le> 9999" by simp_all
  from md show "1 \<le> m" "m \<le> 12" "1 \<le> d" "d \<le> 31" by simp_all
qed

lemma month_offset:
  fixes m :: int
  assumes "1 \<le> m" "m \<le> 12"
  shows "m \<le> 2 \<Longrightarrow> 306 \<le> (153 * ((m + 9) mod 12) + 2) div 5"
        "(153 * ((m + 9) mod 12) + 2) div 5 \<le> 337"
        "0 \<le> (153 * ((m + 9) mod 12) + 2) div 5"
        "3 \<le> m \<Longrightarrow> (153 * ((m + 9) mod 12) + 2) div 5 \<le> 275"
proof -
  from assms consider "m = 1" | "m = 2" | "m = 3" | "m = 4" | "m = 5" | "m = 6" | "m = 7"
    | "m = 8" | "m = 9" | "m = 10" | "m = 11" | "m = 12" by atomize_elim arith
  then have "(m \<le> 2 \<longrightarrow> 306 \<le> (153 * ((m + 9) mod 12) + 2) div 5)
      \<and> (153 * ((m + 9) mod 12) + 2) div 5 \<le> 337
      \<and> 0 \<le> (153 * ((m + 9) mod 12) + 2) div 5
      \<and> (3 \<le> m \<longrightarrow> (153 * ((m + 9) mod 12) + 2) div 5 \<le> 275)"
    by cases simp_all
  then show "m \<le> 2 \<Longrightarrow> 306 \<le> (153 * ((m + 9) mod 12) + 2) div 5"
        "(153 * ((m + 9) mod 12) + 2) div 5 \<le> 337"
        "0 \<le> (153 * ((m + 9) mod 12) + 2) div 5"
        "3 \<le> m \<Longrightarrow> (153 * ((m + 9) mod 12) + 2) div 5 \<le> 275"
    by simp_all
qed

lemma jdn_of_ymd_range:
  assumes "1 \<le> y" "y \<le> 9999" "1 \<le> m" "m \<le> 12" "1 \<le> d" "d \<le> 31"
  shows "1721426 \<le> jdn_of_ymd y m d" "jdn_of_ymd y m d \<le> 5373484"
proof -
  define y' where "y' = (if m \<le> 2 then y - 1 else y)"
  define era where "era = y' div 400"
  define yoe where "yoe = y' mod 400"
  define h where "h = (153 * ((m + 9) mod 12) + 2) div 5"
  define A where "A = yoe div 4"
  define B where "B = yoe div 100"
  have j: "jdn_of_ymd y m d = era * 146097 + (yoe * 365 + A - B + (h + d - 1)) + 1721120"
    by (simp add: jdn_of_ymd_def Let_def y'_def era_def yoe_def h_def A_def B_def)
  have ye: "y' = 400 * era + yoe" by (simp add: era_def yoe_def)
  have yoe: "0 \<le> yoe" "yoe \<le> 399"
    using pos_mod_bound [of 400 y'] by (simp_all add: yoe_def)
  have B0: "0 \<le> B" using yoe(1) by (simp add: B_def pos_imp_zdiv_nonneg_iff)
  have BA: "B \<le> A" unfolding A_def B_def using yoe(1) by (intro zdiv_mono2) simp_all
  have "yoe div 4 \<le> 399 div 4" using yoe(2) by (intro zdiv_mono1) simp_all
  then have A99: "A \<le> 99" by (simp add: A_def)
  have AB399: "yoe = 399 \<Longrightarrow> A - B = 96" by (simp add: A_def B_def)
  note h = month_offset [OF assms(3,4), folded h_def]
  have y'1: "m \<le> 2 \<Longrightarrow> y' = y - 1" and y'2: "3 \<le> m \<Longrightarrow> y' = y" by (simp_all add: y'_def)
  have e0: "0 \<le> era"
  proof -
    have "0 \<le> y'" using assms(1) by (simp add: y'_def)
    then show ?thesis by (simp add: era_def pos_imp_zdiv_nonneg_iff)
  qed
  have "y' div 400 \<le> 9999 div 400" using assms(2) by (intro zdiv_mono1) (simp_all add: y'_def)
  then have e24: "era \<le> 24" by (simp add: era_def)
  show "1721426 \<le> jdn_of_ymd y m d"
  proof (cases "m \<le> 2")
    case True
    then show ?thesis unfolding j using h(1) e0 yoe BA assms(5) by linarith
  next
    case False
    then have "1 \<le> 400 * era + yoe" using y'2 assms(1) ye by linarith
    then have "365 \<le> 146097 * era + 365 * yoe" using e0 yoe by linarith
    then show ?thesis unfolding j using h(3) BA assms(5) by linarith
  qed
  show "jdn_of_ymd y m d \<le> 5373484"
  proof (cases "era = 24 \<and> yoe = 399")
    case True
    then have "y' = 9999" using ye by simp
    then have "3 \<le> m" using y'1 assms(2) by (cases "m \<le> 2") simp_all
    then show ?thesis unfolding j using h(4) AB399 True assms(6) by simp
  next
    case False
    then have "146097 * era + 365 * yoe \<le> 146097 * 24 + 365 * 398" using e24 yoe by linarith
    then show ?thesis unfolding j using h(2) B0 A99 assms(6) by linarith
  qed
qed

lemma monday_floor:
  fixes j :: int
  shows "(j - j mod 7) mod 7 = 0" "j - j mod 7 \<le> j" "j \<le> j - j mod 7 + 6"
        "1721426 \<le> j \<Longrightarrow> 1721426 \<le> j - j mod 7"
proof -
  show "(j - j mod 7) mod 7 = 0" by (simp add: minus_mod_eq_mult_div)
  show "j - j mod 7 \<le> j" by simp
  show "j \<le> j - j mod 7 + 6" using pos_mod_bound [of 7 j] by simp
  assume "1721426 \<le> j"
  then have "1721426 div 7 \<le> j div 7" by (intro zdiv_mono1) simp_all
  then show "1721426 \<le> j - j mod 7" by (simp add: minus_mod_eq_mult_div)
qed

lemma date_text_in_range:
  assumes "1721426 \<le> j" "j \<le> 5373484"
  obtains s where "date_text j = Some s" "parse_ymd s = Some (ymd_of_jdn j)" "day_number s = Some j"
proof -
  obtain y m d where ymd: "ymd_of_jdn j = (y, m, d)" by (cases "ymd_of_jdn j")
  from ymd obtain mp where mp: "0 \<le> mp" "mp \<le> 11"
    and m: "m = (if mp < 10 then mp + 3 else mp - 9)" and d: "1 \<le> d" "d \<le> 31"
    by (rule ymd_of_jdn_cases)
  have mb: "1 \<le> m" "m \<le> 12" using mp by (simp_all add: m)
  note yb = ymd_of_jdn_year_range [OF ymd assms]
  obtain s where s: "format_ymd (y, m, d) = Some s"
    using yb by (simp add: format_ymd_def)
  have p: "parse_ymd s = Some (y, m, d)"
    using yb mb d s by (rule parse_format)
  show thesis
  proof (rule that [of s])
    show "date_text j = Some s" by (simp add: date_text_def ymd s)
    show "parse_ymd s = Some (ymd_of_jdn j)" by (simp add: p ymd)
    show "day_number s = Some j" by (simp add: day_number_def p jdn_of_ymd_of_jdn [OF ymd])
  qed
qed

lemma day_number_valid:
  assumes "valid_date D"
  obtains j where "day_number D = Some j" "1721426 \<le> j" "j \<le> 5373484"
proof -
  from assms obtain y m d where p: "parse_ymd D = Some (y, m, d)" and y1: "1 \<le> y"
    by (auto simp add: valid_date_def split: option.splits)
  note r = parse_ymd_range [OF p]
  note b = jdn_of_ymd_range [OF y1 r(2-6)]
  show thesis
    by (rule that [of "jdn_of_ymd y m d"]) (simp_all add: day_number_def p b)
qed

lemma week_start_valid:
  assumes "valid_date D"
  obtains j W where "day_number D = Some j" "week_start D = Some W"
    "day_number W = Some (j - j mod 7)" "date_text (j - j mod 7) = Some W"
    "1721426 \<le> j - j mod 7" "j \<le> 5373484"
proof -
  from assms obtain j where j: "day_number D = Some j" "1721426 \<le> j" "j \<le> 5373484"
    by (rule day_number_valid)
  have lo: "1721426 \<le> j - j mod 7" using j(2) by (rule monday_floor(4))
  have hi: "j - j mod 7 \<le> 5373484" using monday_floor(2) [of j] j(3) by linarith
  from lo hi obtain W where W: "date_text (j - j mod 7) = Some W" "day_number W = Some (j - j mod 7)"
    by (rule date_text_in_range)
  have ws: "week_start D = Some W"
    unfolding week_start_def j(1) option.case week_start_day by (fact W(1))
  show thesis
    using j(1) ws W(2) W(1) lo j(3) by (rule that)
qed

lemma week_start_of_monday:
  assumes "day_number W = Some w" "w mod 7 = 0"
  shows "week_start W = date_text w"
proof -
  have "w - w mod 7 = w" using assms(2) by simp
  then show ?thesis
    unfolding week_start_def assms(1) option.case week_start_day by (simp only:)
qed

section \<open>The week start\<close>

lemma week_start_eval:
  assumes "parse_ymd s = Some (y, m, d)" "jdn_of_ymd y m d = j" "j - j mod 7 = w"
    "ymd_of_jdn w = ymd" "format_ymd ymd = r"
  shows "week_start s = r"
  unfolding week_start_def day_number_def assms(1) option.case prod.case week_start_day
    assms(2) assms(3) date_text_def assms(4) by (fact assms(5))

lemma week_start_2026_01_05: "week_start ''2026-01-05'' = Some ''2026-01-05''"
proof (rule week_start_eval)
  show "parse_ymd ''2026-01-05'' = Some (2026, 1, 5)" by code_simp
  show "jdn_of_ymd 2026 1 5 = 2461046" by code_simp
  show "(2461046::int) - 2461046 mod 7 = 2461046" by simp
  show "ymd_of_jdn 2461046 = (2026, 1, 5)" by code_simp
  show "format_ymd (2026, 1, 5) = Some ''2026-01-05''" by code_simp
qed

lemma week_start_2026_01_10: "week_start ''2026-01-10'' = Some ''2026-01-05''"
proof (rule week_start_eval)
  show "parse_ymd ''2026-01-10'' = Some (2026, 1, 10)" by code_simp
  show "jdn_of_ymd 2026 1 10 = 2461051" by code_simp
  show "(2461051::int) - 2461051 mod 7 = 2461046" by simp
  show "ymd_of_jdn 2461046 = (2026, 1, 5)" by code_simp
  show "format_ymd (2026, 1, 5) = Some ''2026-01-05''" by code_simp
qed

lemma valid_date_2026_01_10: "valid_date ''2026-01-10''"
proof -
  have "parse_ymd ''2026-01-10'' = Some (2026, 1, 10)" by code_simp
  then show ?thesis by (simp add: valid_date_def days_in_month_def)
qed

text \<open>
  C9. The week-bucketing expression that \<^verbatim>\<open>get_summary\<close> applies is idempotent: for every
  valid calendar date it yields a date, and applying it to that date yields the same date
  again.
\<close>

theorem week_start_idempotent:
  assumes "valid_date D"
  shows "week_start D \<noteq> None \<and> Option.bind (week_start D) week_start = week_start D"
proof -
  from assms obtain j W where ws: "week_start D = Some W"
    and dn: "day_number W = Some (j - j mod 7)" and dt: "date_text (j - j mod 7) = Some W"
    by (rule week_start_valid)
  have "week_start W = date_text (j - j mod 7)"
    using dn monday_floor(1) by (rule week_start_of_monday)
  then show ?thesis by (simp add: ws dt)
qed

theorem week_start_idempotent_witness:
  "valid_date ''2026-01-10'' \<and> week_start ''2026-01-10'' = Some ''2026-01-05''
 \<and> Option.bind (week_start ''2026-01-10'') week_start = week_start ''2026-01-10''"
  using week_start_idempotent [OF valid_date_2026_01_10] valid_date_2026_01_10
    week_start_2026_01_10
  by simp

lemma week_start_is_monday:
  assumes "valid_date D"
  shows "case (Option.bind (week_start D) day_number, day_number D) of
           (Some w, Some j) \<Rightarrow> sqlite_weekday w = 1 \<and> w \<le> j \<and> j \<le> w + 6
         | _ \<Rightarrow> False"
proof -
  from assms obtain j W where j: "day_number D = Some j" and ws: "week_start D = Some W"
    and dn: "day_number W = Some (j - j mod 7)"
    by (rule week_start_valid)
  have "(j - j mod 7 + 1) mod 7 = ((j - j mod 7) mod 7 + 1) mod 7" by (simp only: mod_add_left_eq)
  then have "sqlite_weekday (j - j mod 7) = 1"
    unfolding sqlite_weekday_def monday_floor(1) by simp
  then show ?thesis
    using monday_floor(2,3) [of j] by (simp add: ws dn j)
qed

section \<open>The scenario of the specification\<close>

text \<open>
  C1. On the scenario of the specification the code departs from the claim: the week start
  that \<^verbatim>\<open>get_summary\<close> computes for Monday 2026-01-05 and for Saturday 2026-01-10 is
  2026-01-05, a Monday (weekday 1 in SQLite's numbering), and \<^verbatim>\<open>weekly_progress\<close> holds the single
  row \<^verbatim>\<open>{week_start: "2026-01-05", Tactics: 75}\<close>. The Sunday on or before either date, which
  the claim and the handler's own comment name as the week start, is 2026-01-04; a Sunday
  itself is bucketed with the six days before it.
\<close>

theorem scenario_week_start_is_monday:
  "week_start ''2026-01-05'' = Some ''2026-01-05''
 \<and> week_start ''2026-01-10'' = Some ''2026-01-05''
 \<and> weekday_of ''2026-01-05'' = Some 1
 \<and> spec_week_start ''2026-01-05'' = Some ''2026-01-04''
 \<and> spec_week_start ''2026-01-10'' = Some ''2026-01-04''
 \<and> weekday_of ''2026-01-04'' = Some 0
 \<and> week_start ''2026-01-04'' = Some ''2025-12-29''
 \<and> weekly_progress (get_summary scenario_db)
       = [[(''week_start'', JStr ''2026-01-05''), (''Tactics'', JInt 75)]]"
proof -
  have "weekday_of ''2026-01-05'' = Some 1" by code_simp
  moreover have "spec_week_start ''2026-01-05'' = Some ''2026-01-04''" by code_simp
  moreover have "spec_week_start ''2026-01-10'' = Some ''2026-01-04''" by code_simp
  moreover have "weekday_of ''2026-01-04'' = Some 0" by code_simp
  moreover have "week_start ''2026-01-04'' = Some ''2025-12-29''" by code_simp
  moreover have "weekly_progress (get_summary scenario_db)
       = [[(''week_start'', JStr ''2026-01-05''), (''Tactics'', JInt 75)]]" by code_simp
  ultimately show ?thesis
    using week_start_2026_01_05 week_start_2026_01_10 by simp
qed

section \<open>Creating an activity\<close>

lemma next_rowid_fresh: "i \<in> set ids \<Longrightarrow> i < next_rowid ids seq"
  by (induction ids) (auto simp add: next_rowid_def)

lemma find_appended:
  "(\<And>x. x \<in> set xs \<Longrightarrow> \<not> P x) \<Longrightarrow> P y \<Longrightarrow> find P (xs @ [y]) = Some y"
  by (induction xs) simp_all

lemma create_activity_result:
  assumes "fits_int64 (ac_week p)" "fits_int64 (ac_minutes p)"
    and "fits_int64 (next_rowid (map a_id (activities db)) (activities_seq db))"
  shows "create_activity now p db =
     (db\<lparr>activities := activities db @
            [\<lparr>a_id = next_rowid (map a_id (activities db)) (activities_seq db),
              a_date = ac_date p, a_week = ac_week p, a_category = ac_category p,
              a_minutes = ac_minutes p, a_details = ac_details p, a_created_at = now\<rparr>],
          activities_seq := next_rowid (map a_id (activities db)) (activities_seq db)\<rparr>,
      Inr \<lparr>a_id = next_rowid (map a_id (activities db)) (activities_seq db),
            a_date = ac_date p, a_week = ac_week p, a_category = ac_category p,
            a_minutes = ac_minutes p, a_details = ac_details p, a_created_at = now\<rparr>)"
proof -
  define n where "n = next_rowid (map a_id (activities db)) (activities_seq db)"
  define r where "r = \<lparr>a_id = n, a_date = ac_date p, a_week = ac_week p, a_category = ac_category p,
            a_minutes = ac_minutes p, a_details = ac_details p, a_created_at = now\<rparr>"
  have fn: "fits_int64 n" using assms(3) by (simp only: n_def)
  have "\<not> a_id x = n" if "x \<in> set (activities db)" for x
    using next_rowid_fresh [of "a_id x" "map a_id (activities db)" "activities_seq db"] that
    by (simp add: n_def)
  moreover have "a_id r = n" unfolding r_def by simp
  ultimately have "find (\<lambda>a. a_id a = n) (activities db @ [r]) = Some r"
    by (intro find_appended) blast+
  then show ?thesis
    using assms(1,2) fn
    by (simp add: create_activity_def Let_def n_def [symmetric] r_def [symmetric])
qed

lemma create_activity_overflow:
  assumes "\<not> (fits_int64 (ac_week p) \<and> fits_int64 (ac_minutes p))"
  shows "create_activity now p db = (db, Inl OverflowError)"
  using assms by (auto simp add: create_activity_def)

lemma create_activity_full:
  assumes "fits_int64 (ac_week p)" "fits_int64 (ac_minutes p)"
    and "\<not> fits_int64 (next_rowid (map a_id (activities db)) (activities_seq db))"
  shows "create_activity now p db = (db, Inl OperationalError)"
  using assms by (simp add: create_activity_def Let_def)

text \<open>
  C8, as the code has it. \<^verbatim>\<open>POST /activities\<close> checks nothing beyond the field types of
  \<^verbatim>\<open>ActivityCreate\<close>. A payload whose \<^verbatim>\<open>week\<close> and \<^verbatim>\<open>minutes\<close> fit in signed 64 bits is
  inserted with its five fields verbatim under a fresh id, the table grows by exactly that
  row and the row is returned, whatever the sign of \<^verbatim>\<open>minutes\<close> and whatever the \<^verbatim>\<open>date\<close>
  text; the one exception is a table whose rowids are used up, which takes no row and
  raises \<^verbatim>\<open>OperationalError\<close>. A payload whose \<^verbatim>\<open>week\<close> or \<^verbatim>\<open>minutes\<close> lies outside signed
  64 bits passes the type check too: the bind of the \<^verbatim>\<open>INSERT\<close> raises \<^verbatim>\<open>OverflowError\<close>
  and the store is left as it was. The table of mistakes is untouched in every case.
\<close>

theorem create_activity_inserts_verbatim:
  "create_activity now p db
     = (if fits_int64 (ac_week p) \<and> fits_int64 (ac_minutes p) then
          if fits_int64 (next_rowid (map a_id (activities db)) (activities_seq db)) then
            (db\<lparr>activities := activities db @
                   [\<lparr>a_id = next_rowid (map a_id (activities db)) (activities_seq db),
                     a_date = ac_date p, a_week = ac_week p, a_category = ac_category p,
                     a_minutes = ac_minutes p, a_details = ac_details p, a_created_at = now\<rparr>],
                 activities_seq := next_rowid (map a_id (activities db)) (activities_seq db)\<rparr>,
             Inr \<lparr>a_id = next_rowid (map a_id (activities db)) (activities_seq db),
                   a_date = ac_date p, a_week = ac_week p, a_category = ac_category p,
                   a_minutes = ac_minutes p, a_details = ac_details p, a_created_at = now\<rparr>)
          else (db, Inl OperationalError)
        else (db, Inl OverflowError))
 \<and> next_rowid (map a_id (activities db)) (activities_seq db) \<notin> a_id ` set (activities db)
 \<and> mistakes (fst (create_activity now p db)) = mistakes db"
proof -
  have fresh: "next_rowid (map a_id (activities db)) (activities_seq db) \<notin> a_id ` set (activities db)"
    using next_rowid_fresh [of _ "map a_id (activities db)" "activities_seq db"] by fastforce
  consider (stored) "fits_int64 (ac_week p)" "fits_int64 (ac_minutes p)"
        "fits_int64 (next_rowid (map a_id (activities db)) (activities_seq db))"
    | (full) "fits_int64 (ac_week p)" "fits_int64 (ac_minutes p)"
        "\<not> fits_int64 (next_rowid (map a_id (activities db)) (activities_seq db))"
    | (overflow) "\<not> (fits_int64 (ac_week p) \<and> fits_int64 (ac_minutes p))"
    by blast
  then show ?thesis
  proof cases
    case stored
    then show ?thesis using fresh by (simp add: create_activity_result)
  next
    case full
    then show ?thesis using fresh by (simp add: create_activity_full)
  next
    case overflow
    then show ?thesis using fresh by (simp add: create_activity_overflow)
  qed
qed

theorem create_activity_inserts_verbatim_witness:
  "create_activity ''2026-01-11 09:00:00'' bad_activity scenario_db
     = (scenario_db\<lparr>activities := activities scenario_db @
            [\<lparr>a_id = 3, a_date = ''2026-13-45'', a_week = 0, a_category = ''Tactics'',
              a_minutes = - 5, a_details = None, a_created_at = ''2026-01-11 09:00:00''\<rparr>],
          activities_seq := 3\<rparr>,
        Inr \<lparr>a_id = 3, a_date = ''2026-13-45'', a_week = 0, a_category = ''Tactics'',
              a_minutes = - 5, a_details = None, a_created_at = ''2026-01-11 09:00:00''\<rparr>)
 \<and> create_activity ''2026-01-11 09:00:00'' oversized_minutes scenario_db
     = (scenario_db, Inl OverflowError)"
proof -
  have sc: "map a_id (activities scenario_db) = [1, 2]" "activities_seq scenario_db = 2"
    by (simp_all add: scenario_db_def create_activity_def next_rowid_def empty_db_def
        monday_tactics_def saturday_tactics_def fits_int64_def Let_def)
  have n: "next_rowid (map a_id (activities scenario_db)) (activities_seq scenario_db) = 3"
    by (simp add: sc next_rowid_def)
  show ?thesis
    using create_activity_inserts_verbatim [of "''2026-01-11 09:00:00''" bad_activity scenario_db]
      create_activity_inserts_verbatim [of "''2026-01-11 09:00:00''" oversized_minutes scenario_db]
    by (simp add: n bad_activity_def oversized_minutes_def fits_int64_def)
qed

theorem negative_minutes_and_bad_date_accepted:
  "ac_minutes bad_activity < 0
 \<and> \<not> valid_date (ac_date bad_activity)
 \<and> create_activity ''2026-01-10 18:00:00'' bad_activity empty_db
     = (\<lparr>activities = [\<lparr>a_id = 1, a_date = ''2026-13-45'', a_week = 0, a_category = ''Tactics'',
                          a_minutes = - 5, a_details = None,
                          a_created_at = ''2026-01-10 18:00:00''\<rparr>],
         activities_seq = 1, mistakes = [], mistakes_seq = 0\<rparr>,
        Inr \<lparr>a_id = 1, a_date = ''2026-13-45'', a_week = 0, a_category = ''Tactics'',
              a_minutes = - 5, a_details = None, a_created_at = ''2026-01-10 18:00:00''\<rparr>)"
proof -
  have "\<not> valid_date ''2026-13-45''" by code_simp
  then show ?thesis
    by (simp add: create_activity_result bad_activity_def empty_db_def next_rowid_def
        fits_int64_def)
qed

section \<open>The current week\<close>

lemma max_date_Max:
  "max_date acts = (if acts = [] then None else Some (Max (a_date ` set acts)))"
proof (cases acts)
  case Nil
  then show ?thesis by (simp add: max_date_def)
next
  case (Cons a rest)
  have "foldl max (a_date a) (map a_date rest) = fold max (map a_date rest) (a_date a)"
    by (simp add: foldl_conv_fold max.commute)
  also have "\<dots> = Max (set (a_date a # map a_date rest))"
    by (simp only: Max.set_eq_fold)
  finally show ?thesis by (simp add: max_date_def Cons)
qed

lemma date_text_not_empty: "date_text j = Some s \<Longrightarrow> s \<noteq> []"
  by (auto simp add: date_text_def format_ymd_def split: prod.splits if_splits)

lemma week_start_truthy: "truthy (week_start d) \<longleftrightarrow> week_start d \<noteq> None"
proof (cases "week_start d")
  case None
  then show ?thesis by simp
next
  case (Some s)
  then have "s \<noteq> []"
    by (auto simp add: week_start_def split: option.splits dest: date_text_not_empty)
  then show ?thesis by (simp add: Some)
qed

lemma current_week_minutes_sum:
  "current_week_minutes_of acts =
     (case current_week_start_of acts of
        None \<Rightarrow> 0
      | Some w \<Rightarrow> sum_list (map a_minutes (filter (\<lambda>a. week_start (a_date a) = Some w) acts)))"
proof (cases "current_week_start_of acts")
  case None
  then show ?thesis by (simp add: current_week_minutes_of_def)
next
  case (Some w)
  then obtain d where wd: "week_start d = Some w"
    by (auto simp add: current_week_start_of_def split: option.splits)
  have "truthy (Some w)" using week_start_truthy [of d] by (simp only: wd) simp
  then show ?thesis
    by (simp add: current_week_minutes_of_def Some Let_def del: truthy.simps)
qed

lemma hundredths_never_tie:
  fixes t :: int
  shows "(100 * t) mod 60 \<noteq> 30"
proof
  assume a: "(100 * t) mod 60 = 30"
  have "(100 * t) mod 60 mod 20 = (100 * t) mod 20" by (rule mod_mod_cancel) simp
  then show False unfolding a by simp
qed

lemma round_hours:
  fixes t :: int
  shows "round_half_even (100 * t) 60 = round_half_away (100 * t) 60"
    and "100 * t - 30 < 60 * round_half_even (100 * t) 60"
    and "60 * round_half_even (100 * t) 60 < 100 * t + 30"
proof -
  define q where "q = (100 * t) div 60"
  define r where "r = (100 * t) mod 60"
  have n: "100 * t = 60 * q + r" unfolding q_def r_def by (rule mult_div_mod_eq [symmetric])
  have r0: "0 \<le> r" "r < 60" unfolding r_def by (rule pos_mod_sign, simp) (rule pos_mod_bound, simp)
  have r30: "r \<noteq> 30" unfolding r_def by (rule hundredths_never_tie)
  have e: "round_half_even (100 * t) 60 = (if r < 30 then q else q + 1)"
    unfolding round_half_even_def Let_def q_def [symmetric] r_def [symmetric] using r0 r30 by auto
  have a: "round_half_away (100 * t) 60 = (if r < 30 then q else q + 1)"
    unfolding round_half_away_def Let_def q_def [symmetric] r_def [symmetric] using r0 r30 by auto
  note r = r0 r30
  show "round_half_even (100 * t) 60 = round_half_away (100 * t) 60" by (simp only: e a)
  show "100 * t - 30 < 60 * round_half_even (100 * t) 60" unfolding e using n r by auto
  show "60 * round_half_even (100 * t) 60 < 100 * t + 30" unfolding e using n r by auto
qed

section \<open>The weekly pivot\<close>













lemma scenario_rows: "activities scenario_db =
   [\<lparr>a_id = 1, a_date = ''2026-01-05'', a_week = 2, a_category = ''Tactics'', a_minutes = 30,
      a_details = None, a_created_at = ''2026-01-05 18:00:00''\<rparr>,
    \<lparr>a_id = 2, a_date = ''2026-01-10'', a_week = 2, a_category = ''Tactics'', a_minutes = 45,
      a_details = None, a_created_at = ''2026-01-10 18:00:00''\<rparr>]"
  by (simp add: scenario_db_def create_activity_result empty_db_def next_rowid_def
      monday_tactics_def saturday_tactics_def fits_int64_def)

lemma valid_date_2026_01_05: "valid_date ''2026-01-05''"
proof -
  have "parse_ymd ''2026-01-05'' = Some (2026, 1, 5)" by code_simp
  then show ?thesis by (simp add: valid_date_def days_in_month_def)
qed


section \<open>Text order and day order\<close>














section \<open>The hours of the current week\<close>

lemma round_half_even_near:
  fixes n d :: int
  assumes "0 < d"
  shows "\<bar>2 * (n - d * round_half_even n d)\<bar> \<le> d"
proof -
  define q where "q = n div d"
  define r where "r = n mod d"
  define u where "u = d * q"
  have n: "n = u + r" unfolding u_def q_def r_def by simp
  have r: "0 \<le> r" "r < d" unfolding r_def using assms by simp_all
  have s: "d * (q + 1) = u + d" unfolding u_def by (simp add: algebra_simps)
  consider (lo) "round_half_even n d = q" "2 * r \<le> d"
    | (hi) "round_half_even n d = q + 1" "d \<le> 2 * r"
    unfolding round_half_even_def Let_def q_def [symmetric] r_def [symmetric]
    by (cases "2 * r < d"; cases "d < 2 * r"; cases "even q") auto
  then show ?thesis
  proof cases
    case lo
    then show ?thesis using n r by (simp add: u_def [symmetric])
  next
    case hi
    then show ?thesis using n r by (simp add: s)
  qed
qed

lemma round_half_even_unique:
  fixes n d h :: int
  assumes "0 < d" "2 * \<bar>n - d * h\<bar> < d"
  shows "round_half_even n d = h"
proof -
  define q where "q = n div d"
  define r where "r = n mod d"
  define u where "u = d * q"
  define v where "v = d * h"
  have n: "n = u + r" unfolding u_def q_def r_def by simp
  have r: "0 \<le> r" "r < d" unfolding r_def using assms by simp_all
  have "2 * \<bar>n - v\<bar> < d" using assms(2) by (simp only: v_def)
  then have a: "2 * (n - v) < d" "2 * (v - n) < d" by arith+
  consider (below) "h \<le> q - 1" | (same) "h = q" | (succ) "h = q + 1" | (above) "q + 2 \<le> h"
    by linarith
  then show ?thesis
  proof cases
    case below
    have "d * h \<le> d * (q - 1)" using below assms(1) by (intro mult_left_mono) simp_all
    then have "v \<le> u - d" unfolding u_def v_def by (simp add: algebra_simps)
    then have False using n r a by arith
    then show ?thesis ..
  next
    case above
    have "d * (q + 2) \<le> d * h" using above assms(1) by (intro mult_left_mono) simp_all
    then have "u + 2 * d \<le> v" unfolding u_def v_def by (simp add: algebra_simps)
    then have False using n r a by arith
    then show ?thesis ..
  next
    case same
    then have "v = u" by (simp add: u_def v_def)
    then have "2 * r < d" using n r a by arith
    then show ?thesis
      unfolding round_half_even_def Let_def q_def [symmetric] r_def [symmetric]
      using same by simp
  next
    case succ
    then have "v = u + d" by (simp add: u_def v_def algebra_simps)
    then have "d < 2 * r" using n r a by arith
    then show ?thesis
      unfolding round_half_even_def Let_def q_def [symmetric] r_def [symmetric]
      using succ by simp
  qed
qed

lemma scale_up_spec:
  assumes "0 < d" "n \<noteq> 0" "\<bar>n\<bar> < 9007199254740992 * d" "scale_up n d k = (n', k')"
  shows "k \<le> k' \<and> n' = n * 2 ^ (k' - k)
       \<and> 4503599627370496 * d \<le> \<bar>n'\<bar> \<and> \<bar>n'\<bar> < 9007199254740992 * d"
  using assms
proof (induction n d k rule: scale_up.induct)
  case (1 n d k)
  show ?case
  proof (cases "\<bar>n\<bar> < 4503599627370496 * d")
    case True
    then have step: "scale_up n d k = scale_up (2 * n) d (Suc k)"
      using "1.prems"(1,2) by (subst scale_up.simps) simp
    have c: "n \<noteq> 0 \<and> 0 < d \<and> \<bar>n\<bar> < 4503599627370496 * d"
      using True "1.prems"(1,2) by simp
    have "Suc k \<le> k' \<and> n' = 2 * n * 2 ^ (k' - Suc k)
       \<and> 4503599627370496 * d \<le> \<bar>n'\<bar> \<and> \<bar>n'\<bar> < 9007199254740992 * d"
    proof (rule "1.IH" [OF c "1.prems"(1)])
      show "2 * n \<noteq> 0" using "1.prems"(2) by simp
      show "\<bar>2 * n\<bar> < 9007199254740992 * d" using True by simp
      show "scale_up (2 * n) d (Suc k) = (n', k')" using "1.prems"(4) step by simp
    qed
    then have ih: "Suc k \<le> k'" "n' = 2 * n * 2 ^ (k' - Suc k)"
      "4503599627370496 * d \<le> \<bar>n'\<bar>" "\<bar>n'\<bar> < 9007199254740992 * d"
      by blast+
    have "k' - k = Suc (k' - Suc k)" using ih(1) by simp
    then have "(2::int) ^ (k' - k) = 2 * 2 ^ (k' - Suc k)" by simp
    then have "n' = n * 2 ^ (k' - k)" using ih(2) by simp
    moreover have "k \<le> k'" using ih(1) by simp
    ultimately show ?thesis using ih(3,4) by blast
  next
    case False
    then have "scale_up n d k = (n, k)" by (subst scale_up.simps) simp
    then show ?thesis using "1.prems" False by simp
  qed
qed

lemma float_hours_core:
  fixes T M P h :: int
  assumes "\<bar>T * P - 60 * M\<bar> \<le> 30" "300 < P" "\<bar>5 * T - 3 * h\<bar> \<le> 1"
  shows "2 * \<bar>100 * M - P * h\<bar> < P"
proof -
  define a where "a = T * P"
  define b where "b = P * h"
  have e: "5 * a - 3 * b = (5 * T - 3 * h) * P" by (simp add: a_def b_def algebra_simps)
  consider "5 * T - 3 * h = - 1" | "5 * T - 3 * h = 0" | "5 * T - 3 * h = 1"
    using assms(3) by linarith
  then have "\<bar>5 * a - 3 * b\<bar> \<le> P"
    unfolding e using assms(2) by cases simp_all
  moreover have "\<bar>a - 60 * M\<bar> \<le> 30" using assms(1) by (simp only: a_def)
  ultimately have f: "5 * a - 3 * b \<le> P" "3 * b - 5 * a \<le> P" "a - 60 * M \<le> 30" "60 * M - a \<le> 30"
    by arith+
  have "2 * \<bar>100 * M - b\<bar> < P"
  proof (cases "0 \<le> 100 * M - b")
    case True
    then have "\<bar>100 * M - b\<bar> = 100 * M - b" by (rule abs_of_nonneg)
    moreover have "2 * (100 * M - b) < P" using f assms(2) by arith
    ultimately show ?thesis by simp
  next
    case False
    then have "\<bar>100 * M - b\<bar> = - (100 * M - b)" by (intro abs_of_neg) simp
    moreover have "2 * (b - 100 * M) < P" using f assms(2) by arith
    ultimately show ?thesis by simp
  qed
  then show ?thesis by (simp only: b_def)
qed

lemma float_hours:
  fixes T :: int
  assumes "\<bar>T\<bar> < 562949953421312"
  shows "py_round2 (double_of_ratio T 60) = double_of_ratio (round_half_even (100 * T) 60) 100"
proof (cases "T = 0")
  case True
  have "scale_up 0 60 0 = (0, 0)" by (subst scale_up.simps) simp
  then have "double_of_ratio 0 60 = (0, 0)"
    by (simp add: double_of_ratio_def normalize_double_def round_half_even_def)
  then show ?thesis by (simp add: True py_round2_def round_half_even_def)
next
  case nz: False
  define h where "h = round_half_even (100 * T) 60"
  have h: "\<bar>5 * T - 3 * h\<bar> \<le> 1"
    using round_hours(2,3) [of T] unfolding h_def [symmetric] by linarith
  obtain n' k where sc: "scale_up T 60 0 = (n', k)" by (cases "scale_up T 60 0")
  have "0 \<le> k \<and> n' = T * 2 ^ (k - 0)
       \<and> 4503599627370496 * 60 \<le> \<bar>n'\<bar> \<and> \<bar>n'\<bar> < 9007199254740992 * 60"
    by (rule scale_up_spec [OF _ nz _ sc]) (use assms in simp_all)
  then have spec: "n' = T * 2 ^ k" "270215977642229760 \<le> \<bar>n'\<bar>" by auto
  define P where "P = (2::int) ^ k"
  define M where "M = round_half_even n' 60"
  have P0: "0 < P" by (simp add: P_def)
  have n'P: "n' = T * P" by (simp only: spec(1) P_def)
  have "\<bar>2 * (n' - 60 * M)\<bar> \<le> 60" unfolding M_def by (rule round_half_even_near) simp
  then have "\<bar>n' - 60 * M\<bar> \<le> 30" by arith
  then have near: "\<bar>T * P - 60 * M\<bar> \<le> 30" by (simp only: n'P)
  have "\<bar>n'\<bar> = \<bar>T\<bar> * P" using P0 by (simp add: n'P abs_mult)
  moreover have "\<bar>T\<bar> * P \<le> 562949953421311 * P"
    using assms P0 by (intro mult_right_mono) simp_all
  ultimately have big: "480 < P" using spec(2) by linarith
  have core: "2 * \<bar>100 * M - P * h\<bar> < P"
    by (rule float_hours_core [OF near _ h]) (use big in simp)
  have x: "double_of_ratio T 60 = normalize_double (M, - int k)"
    using assms sc by (simp add: double_of_ratio_def M_def)
  have k2: "2 \<le> k"
  proof (rule ccontr)
    assume "\<not> 2 \<le> k"
    then have "k \<le> 1" by simp
    then have "(2::int) ^ k \<le> 2 ^ 1" by (intro power_increasing) simp_all
    then show False using big by (simp add: P_def)
  qed
  then obtain j where j: "k = Suc j" "1 \<le> j" by (cases k) simp_all
  show ?thesis
  proof (cases "\<bar>M\<bar> = 9007199254740992")
    case False
    have "round_half_even (100 * M) P = h" by (rule round_half_even_unique [OF P0 core])
    moreover have "py_round2 (M, - int k) = double_of_ratio (round_half_even (100 * M) P) 100"
      using k2 by (simp add: py_round2_def P_def)
    ultimately show ?thesis
      using False by (simp add: x normalize_double_def h_def)
  next
    case True
    define M2 where "M2 = M div 2"
    define P2 where "P2 = (2::int) ^ j"
    have "M = 9007199254740992 \<or> M = - 9007199254740992" using True by arith
    then have M: "M = 2 * M2" unfolding M2_def by auto
    have P: "P = 2 * P2" by (simp add: P_def P2_def j)
    have P20: "0 < P2" by (simp add: P2_def)
    define c where "c = P2 * h"
    have Ph: "P * h = 2 * c" by (simp add: P c_def)
    have "2 * \<bar>100 * M - 2 * c\<bar> < P" using core by (simp only: Ph)
    then have "2 * \<bar>100 * M2 - c\<bar> < P2" using M P by arith
    then have "2 * \<bar>100 * M2 - P2 * h\<bar> < P2" by (simp only: c_def)
    then have "round_half_even (100 * M2) P2 = h" by (rule round_half_even_unique [OF P20])
    moreover have "normalize_double (M, - int k) = (M2, - int j)"
      using True by (simp add: normalize_double_def M2_def j)
    moreover have "py_round2 (M2, - int j) = double_of_ratio (round_half_even (100 * M2) P2) 100"
      using j(2) by (simp add: py_round2_def P2_def)
    ultimately show ?thesis
      by (simp add: x h_def)
  qed
qed

lemma abs_sum_filter:
  fixes f :: "'a \<Rightarrow> int"
  shows "\<bar>sum_list (map f (filter Q xs))\<bar> \<le> sum_list (map (\<lambda>x. \<bar>f x\<bar>) xs)"
  by (induction xs) auto

lemma current_week_minutes_bound:
  "\<bar>current_week_minutes_of acts\<bar> \<le> sum_list (map (\<lambda>a. \<bar>a_minutes a\<bar>) acts)"
proof (cases "current_week_start_of acts")
  case None
  have "0 \<le> sum_list (map (\<lambda>a. \<bar>a_minutes a\<bar>) acts)" by (rule sum_list_nonneg) auto
  then show ?thesis by (simp add: current_week_minutes_sum None)
next
  case (Some w)
  show ?thesis by (simp add: current_week_minutes_sum Some abs_sum_filter)
qed

text \<open>
  C5, as the code has it. For a store whose activity dates are valid calendar dates and whose
  minutes add up, in absolute value, to less than \<open>2 ^ 49\<close>: \<^verbatim>\<open>current_week_start\<close> is the week
  start of the greatest \<^verbatim>\<open>date\<close> text stored (null for an empty table), taken from the data and
  not from a clock, and \<^verbatim>\<open>current_week_total_hours\<close>, the \<^verbatim>\<open>float\<close> that
  \<^verbatim>\<open>round(current_week_minutes / 60, 2)\<close> returns, is the \<^verbatim>\<open>float\<close> nearest to the sum of the
  minutes of the activities with that week start, divided by 60 exactly and rounded to
  hundredths. Neither the division in floating point nor the rounding of its result moves
  the value to another hundredth. The exact quotient is never half-way between two
  hundredths, so rounding half to even (Python's rule) and rounding half away from zero
  agree on it.
\<close>

theorem current_week_is_data_relative:
  assumes "\<forall>a\<in>set (activities db). valid_date (a_date a)"
    and "sum_list (map (\<lambda>a. \<bar>a_minutes a\<bar>) (activities db)) < 562949953421312"
  shows "current_week_start (get_summary db)
     = (if activities db = [] then None else week_start (Max (a_date ` set (activities db))))
 \<and> current_week_total_hours (get_summary db)
     = double_of_ratio
         (round_half_even
           (100 * (case current_week_start (get_summary db) of
                     None \<Rightarrow> 0
                   | Some w \<Rightarrow> sum_list (map a_minutes
                       (filter (\<lambda>a. week_start (a_date a) = Some w) (activities db))))) 60) 100
 \<and> (\<bar>t\<bar> < 562949953421312 \<longrightarrow>
      py_round2 (double_of_ratio t 60) = double_of_ratio (round_half_even (100 * t) 60) 100)
 \<and> round_half_even (100 * t) 60 = round_half_away (100 * t) 60
 \<and> 100 * t - 30 < 60 * round_half_even (100 * t) 60
 \<and> 60 * round_half_even (100 * t) 60 < 100 * t + 30"
proof -
  have b: "\<bar>current_week_minutes_of (activities db)\<bar> < 562949953421312"
    using current_week_minutes_bound [of "activities db"] assms(2) by linarith
  have "current_week_total_hours (get_summary db)
      = double_of_ratio (round_half_even (100 * current_week_minutes_of (activities db)) 60) 100"
    using float_hours [OF b] by (simp add: get_summary_def)
  then show ?thesis
    using round_hours [of t] float_hours [of t]
    by (simp add: get_summary_def current_week_minutes_sum current_week_start_of_def max_date_Max)
qed

theorem current_week_is_data_relative_witness:
  "valid_date ''2026-01-05'' \<and> valid_date ''2026-01-10''
 \<and> map a_date (activities scenario_db) = [''2026-01-05'', ''2026-01-10'']
 \<and> map a_minutes (activities scenario_db) = [30, 45]
 \<and> current_week_start (get_summary scenario_db) = Some ''2026-01-05''
 \<and> current_week_total_hours (get_summary scenario_db) = double_of_ratio 125 100
 \<and> double_of_ratio 125 100 = (5629499534213120, - 52)
 \<and> py_round2 (double_of_ratio 75 60) = double_of_ratio 125 100"
proof -
  have h1: "\<forall>a\<in>set (activities scenario_db). valid_date (a_date a)"
    by (simp add: scenario_rows valid_date_2026_01_05 valid_date_2026_01_10)
  have h2: "sum_list (map (\<lambda>a. \<bar>a_minutes a\<bar>) (activities scenario_db)) < 562949953421312"
    by (simp add: scenario_rows)
  have m: "Max (a_date ` set (activities scenario_db)) = ''2026-01-10''"
    by (simp add: scenario_rows)
  have r: "round_half_even 7500 60 = 125" by (simp add: round_half_even_def)
  have d: "double_of_ratio 125 100 = (5629499534213120, - 52)" by code_simp
  show ?thesis
    using current_week_is_data_relative [OF h1 h2, of 75]
    by (simp add: scenario_rows valid_date_2026_01_05 valid_date_2026_01_10 m r d
        week_start_2026_01_05 week_start_2026_01_10)
qed

text \<open>
  The claim C5 without a bound on the minutes fails at one activity of \<open>60 * 2 ^ 44 + 2\<close>
  minutes, a value that fits in signed 64 bits. The minutes divided by 60 are
  17592186044416.0333..., which is 17592186044416.03 to two decimals under either rounding
  rule; the \<^verbatim>\<open>float\<close> quotient is 17592186044416.03515625, and \<^verbatim>\<open>round\<close> of that returns
  17592186044416.04.
\<close>

theorem long_session_rounds_to_another_hundredth:
  "valid_date ''2026-01-05''
 \<and> map a_date (activities long_session_db) = [''2026-01-05'']
 \<and> map a_minutes (activities long_session_db) = [1055531162664962]
 \<and> fits_int64 1055531162664962
 \<and> current_week_start (get_summary long_session_db) = Some ''2026-01-05''
 \<and> round_half_even (100 * 1055531162664962) 60 = 1759218604441603
 \<and> round_half_away (100 * 1055531162664962) 60 = 1759218604441603
 \<and> double_of_ratio 1055531162664962 60 = (4503599627370505, - 8)
 \<and> double_of_ratio 1759218604441603 100 = (4503599627370504, - 8)
 \<and> double_of_ratio 1759218604441604 100 = (4503599627370506, - 8)
 \<and> current_week_total_hours (get_summary long_session_db) = (4503599627370506, - 8)"
proof -
  have rows: "activities long_session_db =
     [\<lparr>a_id = 1, a_date = ''2026-01-05'', a_week = 2, a_category = ''Tactics'',
        a_minutes = 1055531162664962, a_details = None, a_created_at = ''2026-01-05 18:00:00''\<rparr>]"
    by (simp add: long_session_db_def create_activity_result empty_db_def next_rowid_def
        long_session_def fits_int64_def)
  have "fits_int64 1055531162664962" by (simp add: fits_int64_def)
  moreover have "current_week_start (get_summary long_session_db) = Some ''2026-01-05''"
    by (simp add: get_summary_def current_week_start_of_def max_date_def rows week_start_2026_01_05)
  moreover have "round_half_even (100 * 1055531162664962) 60 = 1759218604441603" by code_simp
  moreover have "round_half_away (100 * 1055531162664962) 60 = 1759218604441603" by code_simp
  moreover have q: "double_of_ratio 1055531162664962 60 = (4503599627370505, - 8)" by code_simp
  moreover have "double_of_ratio 1759218604441603 100 = (4503599627370504, - 8)" by code_simp
  moreover have "double_of_ratio 1759218604441604 100 = (4503599627370506, - 8)" by code_simp
  moreover have "py_round2 (4503599627370505, - 8) = (4503599627370506, - 8)" by code_simp
  moreover have "current_week_minutes_of (activities long_session_db) = 1055531162664962"
    by (simp add: current_week_minutes_sum current_week_start_of_def max_date_def rows
        week_start_2026_01_05)
  ultimately show ?thesis
    by (simp add: rows valid_date_2026_01_05 get_summary_def)
qed

section \<open>Deleting an absent id\<close>

lemma filter_id_absent:
  "length (filter (\<lambda>x. f x = i) xs) = 0 \<longleftrightarrow> i \<notin> f ` set xs"
  by (induction xs) auto

text \<open>
  C4, as the code has it. For every store and every id within signed 64 bits that no row of
  the table carries, \<^verbatim>\<open>DELETE /activities/{id}\<close> and \<^verbatim>\<open>DELETE /mistakes/{id}\<close> raise the 404
  HTTPException and return the store as it was; and whatever a first delete of such an id
  did, a second delete of the same id raises the 404 and changes nothing. An id outside
  signed 64 bits raises \<^verbatim>\<open>OverflowError\<close> instead, the store again unchanged.
\<close>

theorem delete_absent_not_found:
  "(fits_int64 activity_id \<and> activity_id \<notin> a_id ` set (activities db) \<longrightarrow>
      delete_activity activity_id db = (db, Inl (HTTPException 404 ''Activity not found'')))
 \<and> (fits_int64 mistake_id \<and> mistake_id \<notin> m_id ` set (mistakes db) \<longrightarrow>
      delete_mistake mistake_id db = (db, Inl (HTTPException 404 ''Mistake not found'')))
 \<and> (fits_int64 activity_id \<longrightarrow>
      delete_activity activity_id (fst (delete_activity activity_id db))
        = (fst (delete_activity activity_id db), Inl (HTTPException 404 ''Activity not found'')))
 \<and> (fits_int64 mistake_id \<longrightarrow>
      delete_mistake mistake_id (fst (delete_mistake mistake_id db))
        = (fst (delete_mistake mistake_id db), Inl (HTTPException 404 ''Mistake not found'')))
 \<and> (\<not> fits_int64 activity_id \<longrightarrow> delete_activity activity_id db = (db, Inl OverflowError))
 \<and> (\<not> fits_int64 mistake_id \<longrightarrow> delete_mistake mistake_id db = (db, Inl OverflowError))"
proof -
  have a1: "fits_int64 activity_id \<Longrightarrow> activity_id \<notin> a_id ` set (activities d) \<Longrightarrow>
      delete_activity activity_id d = (d, Inl (HTTPException 404 ''Activity not found''))" for d
    using filter_id_absent [of a_id activity_id "activities d"]
    by (simp add: delete_activity_def)
  have m1: "fits_int64 mistake_id \<Longrightarrow> mistake_id \<notin> m_id ` set (mistakes d) \<Longrightarrow>
      delete_mistake mistake_id d = (d, Inl (HTTPException 404 ''Mistake not found''))" for d
    using filter_id_absent [of m_id mistake_id "mistakes d"]
    by (simp add: delete_mistake_def)
  have a2: "activity_id \<notin> a_id ` set (activities (fst (delete_activity activity_id db)))"
    if "fits_int64 activity_id"
    using that by (auto simp add: delete_activity_def Let_def filter_empty_conv)
  have m2: "mistake_id \<notin> m_id ` set (mistakes (fst (delete_mistake mistake_id db)))"
    if "fits_int64 mistake_id"
    using that by (auto simp add: delete_mistake_def Let_def filter_empty_conv)
  have a3: "\<not> fits_int64 activity_id \<Longrightarrow> delete_activity activity_id db = (db, Inl OverflowError)"
    by (simp add: delete_activity_def)
  have m3: "\<not> fits_int64 mistake_id \<Longrightarrow> delete_mistake mistake_id db = (db, Inl OverflowError)"
    by (simp add: delete_mistake_def)
  show ?thesis
    using a1 [of db] m1 [of db] a1 [OF _ a2] m1 [OF _ m2] a3 m3 by blast
qed

theorem delete_absent_not_found_witness:
  "fits_int64 3
 \<and> 3 \<notin> a_id ` set (activities (fst (create_mistake ''t'' blank_mistake scenario_db)))
 \<and> delete_activity 3 (fst (create_mistake ''t'' blank_mistake scenario_db))
     = (fst (create_mistake ''t'' blank_mistake scenario_db),
        Inl (HTTPException 404 ''Activity not found''))
 \<and> fits_int64 2
 \<and> 2 \<notin> m_id ` set (mistakes (fst (create_mistake ''t'' blank_mistake scenario_db)))
 \<and> delete_mistake 2 (fst (create_mistake ''t'' blank_mistake scenario_db))
     = (fst (create_mistake ''t'' blank_mistake scenario_db),
        Inl (HTTPException 404 ''Mistake not found''))"
proof -
  have f: "fits_int64 3" "fits_int64 2" by (simp_all add: fits_int64_def)
  have a: "3 \<notin> a_id ` set (activities (fst (create_mistake ''t'' blank_mistake scenario_db)))"
    by (simp add: create_mistake_def create_activity_def next_rowid_def empty_db_def
        scenario_db_def monday_tactics_def saturday_tactics_def blank_mistake_def Let_def
        fits_int64_def)
  have m: "2 \<notin> m_id ` set (mistakes (fst (create_mistake ''t'' blank_mistake scenario_db)))"
    by (simp add: create_mistake_def create_activity_def next_rowid_def empty_db_def
        scenario_db_def monday_tactics_def saturday_tactics_def blank_mistake_def Let_def
        fits_int64_def)
  show ?thesis
    using a m f
      delete_absent_not_found [where activity_id = 3 and mistake_id = 2
        and db = "fst (create_mistake ''t'' blank_mistake scenario_db)"]
    by blast
qed

text \<open>
  The claim C4 as the specification words it, for every id that is not in the store, fails
  at the id \<open>2 ^ 63\<close>: no row carries it, and both handlers raise \<^verbatim>\<open>OverflowError\<close>, which
  the client sees as a 500 and not as the 404.
\<close>

theorem delete_oversized_id_overflows:
  "9223372036854775808 \<notin> a_id ` set (activities scenario_db)
 \<and> delete_activity 9223372036854775808 scenario_db = (scenario_db, Inl OverflowError)
 \<and> delete_activity 9223372036854775808 scenario_db
      \<noteq> (scenario_db, Inl (HTTPException 404 ''Activity not found''))
 \<and> 9223372036854775808 \<notin> m_id ` set (mistakes scenario_db)
 \<and> delete_mistake 9223372036854775808 scenario_db = (scenario_db, Inl OverflowError)
 \<and> delete_mistake 9223372036854775808 scenario_db
      \<noteq> (scenario_db, Inl (HTTPException 404 ''Mistake not found''))"
proof -
  have "mistakes scenario_db = []"
    by (simp add: scenario_db_def create_activity_def next_rowid_def empty_db_def
        monday_tactics_def saturday_tactics_def fits_int64_def Let_def)
  then show ?thesis
    by (simp add: scenario_rows delete_activity_def delete_mistake_def fits_int64_def)
qed

section \<open>Pagination and filters\<close>



section \<open>Null categories and results\<close>


lemma set_not_null: "set (not_null xs) = {v. Some v \<in> set xs}"
  by (induction xs rule: not_null.induct) auto

lemma length_not_null: "length (not_null xs) = length (filter (\<lambda>v. v \<noteq> None) xs)"
  by (induction xs rule: not_null.induct) simp_all

lemma group_count_keys: "fst ` set (group_count xs) = {v. Some v \<in> set xs}"
  by (simp add: group_count_def Let_def image_image set_not_null)

lemma group_count_distinct: "distinct (map fst (group_count xs))"
  by (simp add: group_count_def Let_def comp_def)




section \<open>Exports of an empty table\<close>

text \<open>
  C7. With no mistake rows the body of \<^verbatim>\<open>GET /export/mistakes\<close> is empty, with no header line;
  with no activity rows the body of \<^verbatim>\<open>GET /export\<close> is the header line
  \<^verbatim>\<open>Date,Week,Category,Minutes,Details\<close> (ended by CR LF, as \<^verbatim>\<open>csv.writer\<close> ends a line) and
  nothing else. The activity header opens the body whatever the table holds, while the
  mistake export writes its header exactly when there is a row.
\<close>

theorem export_of_empty_store:
  "(mistakes db = [] \<longrightarrow> body (export_mistakes today db) = [])
 \<and> (activities db = [] \<longrightarrow>
      body (export_activities today db) = ''Date,Week,Category,Minutes,Details'' @ [CHR 0x0D, CHR 0x0A])
 \<and> take 36 (body (export_activities today db)) = ''Date,Week,Category,Minutes,Details'' @ [CHR 0x0D, CHR 0x0A]
 \<and> (body (export_mistakes today db) = [] \<longleftrightarrow> mistakes db = [])"
proof -
  have h: "writerow [Text ''Date'', Text ''Week'', Text ''Category'', Text ''Minutes'', Text ''Details'']
             = ''Date,Week,Category,Minutes,Details'' @ [CHR 0x0D, CHR 0x0A]"
    by (simp add: writerow_def csv_field_def needs_quotes_def)
  have w: "writerow cs \<noteq> []" for cs
    by (simp add: writerow_def)
  have e: "by_date_desc f xs = [] \<longleftrightarrow> xs = []" for f :: "mistake \<Rightarrow> string" and xs
    by (simp add: by_date_desc_def) (metis length_0_conv length_rev length_sort)
  have e0: "by_date_desc a_date [] = []"
    by (simp add: by_date_desc_def)
  show ?thesis
    by (simp add: export_activities_def export_mistakes_def Let_def h w e e0)
qed

theorem export_of_empty_store_witness:
  "mistakes empty_db = [] \<and> body (export_mistakes ''20260110'' empty_db) = []
 \<and> activities empty_db = []
 \<and> body (export_activities ''20260110'' empty_db)
      = ''Date,Week,Category,Minutes,Details'' @ [CHR 0x0D, CHR 0x0A]"
  using export_of_empty_store [of empty_db "''20260110''"]
  by (simp add: empty_db_def)

end
